theory Spec2Isabelle
  imports
    Main
    "HOL-Library.Word"
    "HOL-Library.Char_ord"
    "HOL-Library.List_Lexorder"
    "HOL-Library.Multiset"
    "HOL-Library.Log_Nat"
    "HOL-Library.Signed_Division"
    "HOL-Library.Sublist"
begin

section \<open>Tracks (internal/media/track.go)\<close>

text \<open>
  \<^verbatim>\<open>Track\<close> is a plain struct. \<^verbatim>\<open>Duration\<close> is a \<^verbatim>\<open>time.Duration\<close>, a signed 64-bit
  count of nanoseconds. \<^verbatim>\<open>HTTPHeaders\<close> is a Go map: its keys are unique and \<^verbatim>\<open>range\<close>
  enumerates it in an unspecified order, so it is an association list whose order
  stands for the enumeration order of one particular run.
\<close>

record track =
  ID :: string
  Title :: string
  Author :: string
  WebURL :: string
  StreamURL :: string
  Thumbnail :: string
  Duration :: "64 word"
  Source :: string
  RequestedBy :: string
  RequestChannelID :: string
  HTTPHeaders :: "(string \<times> string) list"
  QueuedAt :: int

section \<open>The guild player (internal/bot/player.go)\<close>

subsection \<open>State\<close>

text \<open>
  A \<^verbatim>\<open>context.Context\<close> made by \<^verbatim>\<open>context.WithCancel\<close> is live until its cancel function
  is called. \<^verbatim>\<open>cancelPlayback\<close> holds that function, so the field is modelled as the
  context it acts on: \<open>None\<close> is \<^verbatim>\<open>nil\<close>, and calling the function turns \<open>Some Live\<close>
  into \<open>Some Cancelled\<close>.
\<close>

datatype ctx = Live | Cancelled

text \<open>
  A Go \<^verbatim>\<open>error\<close> that is not \<^verbatim>\<open>nil\<close>: \<^verbatim>\<open>context.Canceled\<close>, an error that is just a text
  (\<^verbatim>\<open>errors.New\<close>, or whatever a library returns), or an error wrapped behind a prefix
  by \<^verbatim>\<open>fmt.Errorf("prefix: %w", err)\<close>. \<open>isCanceled\<close> is \<^verbatim>\<open>errors.Is(err, context.Canceled)\<close>,
  which looks through the wrapping, and \<open>errorText\<close> is \<^verbatim>\<open>err.Error()\<close>. A value of
  type \<^verbatim>\<open>error\<close> is a \<open>goerror option\<close>, \<open>None\<close> for \<^verbatim>\<open>nil\<close>.
\<close>

datatype goerror = Canceled | Plain string | Wrapped string goerror

fun isCanceled :: "goerror \<Rightarrow> bool" where
  "isCanceled Canceled = True"
| "isCanceled (Plain m) = False"
| "isCanceled (Wrapped pre e) = isCanceled e"

fun errorText :: "goerror \<Rightarrow> string" where
  "errorText Canceled = ''context canceled''"
| "errorText (Plain m) = m"
| "errorText (Wrapped pre e) = pre @ errorText e"

definition errorsIsCanceled :: "goerror option \<Rightarrow> bool" where
  "errorsIsCanceled err = (case err of None \<Rightarrow> False | Some e \<Rightarrow> isCanceled e)"

text \<open>
  The Opus encoder is outside the repository. What the code settles is how it is set up:
  \<^verbatim>\<open>gopus.NewEncoder(sampleRate, pcmChannelCount, gopus.Audio)\<close> and then
  \<^verbatim>\<open>SetBitrate(opusBitrate)\<close>.
\<close>

record encoder =
  encSampleRate :: nat
  encChannels :: nat
  encBitrate :: "nat option"

definition NewEncoder :: "nat \<Rightarrow> nat \<Rightarrow> encoder" where
  "NewEncoder rate channels = \<lparr>encSampleRate = rate, encChannels = channels, encBitrate = None\<rparr>"

definition SetBitrate :: "nat \<Rightarrow> encoder \<Rightarrow> encoder" where
  "SetBitrate bitrate enc = enc\<lparr>encBitrate := Some bitrate\<rparr>"

text \<open>
  The standard output of the subprocess is the bytes it will still deliver and the way
  the stream ends after them: with \<^verbatim>\<open>io.EOF\<close> or with another error.
\<close>

datatype read_end = EndEOF | EndErr goerror

text \<open>
  The local state of \<^verbatim>\<open>streamTrack\<close> inside its loop. \<open>point\<close> is the place in the loop
  body where the goroutine next touches something it shares with others: the check of
  \<^verbatim>\<open>ctx.Err()\<close> at the top, the critical section that reads \<^verbatim>\<open>p.paused\<close>, the \<^verbatim>\<open>select\<close>
  of the paused pipeline, \<^verbatim>\<open>io.ReadFull\<close> (followed by the decoding and the encoding of
  the frame, which are local), and the \<^verbatim>\<open>select\<close> that sends the packet. \<open>reader\<close> is
  the standard output of the subprocess behind \<^verbatim>\<open>bufio.NewReader\<close>, \<open>packet\<close> the
  packet last encoded, \<open>sent\<close> the packets put on \<^verbatim>\<open>vc.OpusSend\<close> so far.
\<close>

datatype loc = LoopTop | Locking | PauseSelect | Reading | Sending

record pipe =
  point :: loc
  opusEncoder :: encoder
  reader :: "8 word list \<times> read_end"
  packet :: "8 word list"
  sent :: "8 word list list"

text \<open>
  The control point of the goroutine started by \<^verbatim>\<open>go p.playLoop()\<close>, at the granularity
  of its critical sections: before \<^verbatim>\<open>nextTrack\<close>; after \<^verbatim>\<open>nextTrack\<close> returned no track;
  after it returned a track; inside \<^verbatim>\<open>streamTrack\<close>; after \<^verbatim>\<open>streamTrack\<close> returned.
  Inside \<^verbatim>\<open>streamTrack\<close> it is at the entry (\<open>Streaming\<close>, before \<^verbatim>\<open>p.voice\<close> is read),
  before the encoder is made and the subprocess started (\<open>Launching\<close>), or in the loop
  (\<open>Pumping\<close>).
\<close>

datatype pc =
    NoTask
  | AtTop
  | GoIdle
  | Starting track bool
  | Streaming track
  | Launching track
  | Pumping track pipe
  | Returned "goerror option"

text \<open>
  The fields of \<^verbatim>\<open>Player\<close> (without the back pointer \<^verbatim>\<open>bot\<close> and the mutex), followed by
  what the struct does not hold but the code acts on: the playback goroutine
  (\<open>task\<close>), the calls made to \<^verbatim>\<open>announceNowPlaying\<close> and the lines given to
  \<^verbatim>\<open>log.Printf\<close> by \<^verbatim>\<open>playLoop\<close>. \<open>pauseChan\<close> is a channel made by
  \<^verbatim>\<open>make(chan bool, 1)\<close>: \<open>None\<close> is \<^verbatim>\<open>nil\<close>, \<open>Some buf\<close> a channel whose buffer holds
  \<open>buf\<close>. \<open>voice\<close> is the voice connection, identified by its channel.
  \<open>disconnectTimer\<close> says whether the field holds a timer.
\<close>

record player =
  guild :: string
  queue :: "track list"
  current :: "track option"
  loop :: bool
  playing :: bool
  paused :: bool
  skipRequested :: bool
  cancelPlayback :: "ctx option"
  pauseChan :: "bool list option"
  voice :: "string option"
  disconnectTimer :: bool
  task :: pc
  announced :: "(track \<times> bool) list"
  logged :: "string list"

definition pauseChanCap :: nat where
  "pauseChanCap = 1"

definition NewPlayer :: "string \<Rightarrow> player" where
  "NewPlayer guildID =
     \<lparr>guild = guildID, queue = [], current = None, loop = False, playing = False,
      paused = False, skipRequested = False, cancelPlayback = None, pauseChan = None,
      voice = None, disconnectTimer = False, task = NoTask, announced = [], logged = []\<rparr>"

subsection \<open>The idle-disconnect timer\<close>

definition scheduleDisconnectLocked :: "player \<Rightarrow> player" where
  "scheduleDisconnectLocked p = p\<lparr>disconnectTimer := True\<rparr>"

definition cancelDisconnectTimerLocked :: "player \<Rightarrow> player" where
  "cancelDisconnectTimerLocked p =
     (if disconnectTimer p then p\<lparr>disconnectTimer := False\<rparr> else p)"

text \<open>
  The function given to \<^verbatim>\<open>time.AfterFunc\<close>: it drops the voice connection and the timer
  (and then disconnects and removes the player from the registry, which is outside the
  player's own state).
\<close>

definition timerFired :: "player \<Rightarrow> player" where
  "timerFired p = p\<lparr>voice := None, disconnectTimer := False\<rparr>"

subsection \<open>The control surface\<close>

text \<open>
  \<^verbatim>\<open>EnsureConnected\<close>: \<open>joinErr\<close> is what \<^verbatim>\<open>ChannelVoiceJoin\<close> answers (\<open>None\<close> for
  success). The result is the error returned, if any. The method reads \<open>voice\<close> in one
  critical section and stores the new connection in a second one; the two are taken as
  one step.
\<close>

definition EnsureConnected :: "string \<Rightarrow> string option \<Rightarrow> player \<Rightarrow> string option \<times> player" where
  "EnsureConnected channelID joinErr p =
     (if voice p = Some channelID then (None, p)
      else case joinErr of
             Some e \<Rightarrow> (Some (''voice join: '' @ e), p)
           | None \<Rightarrow> (None, p\<lparr>voice := Some channelID\<rparr>))"

definition Enqueue :: "track \<Rightarrow> player \<Rightarrow> nat \<times> player" where
  "Enqueue t p =
     (let p1 = p\<lparr>queue := queue p @ [t]\<rparr>;
          position = length (queue p1);
          p2 = cancelDisconnectTimerLocked p1;
          p3 = (if \<not> playing p2 then p2\<lparr>playing := True, task := AtTop\<rparr> else p2)
      in (position, p3))"

definition Skip :: "player \<Rightarrow> bool \<times> player" where
  "Skip p =
     (let active = (current p \<noteq> None);
          p1 = (case cancelPlayback p of
                  None \<Rightarrow> p
                | Some c \<Rightarrow> p\<lparr>skipRequested := True, loop := False,
                              cancelPlayback := Some Cancelled\<rparr>)
      in (active, p1))"

text \<open>
  \<^verbatim>\<open>Pause\<close> sends on \<open>pauseChan\<close> while it holds the mutex. A send on a channel whose
  buffer is full does not return until a receiver takes a value: that is the result
  \<open>None\<close> (the flag is flipped by then, and the mutex stays held).
\<close>

definition Pause :: "player \<Rightarrow> (bool \<times> player) option" where
  "Pause p =
     (if \<not> playing p \<or> current p = None then Some (False, p)
      else let p1 = p\<lparr>paused := \<not> paused p\<rparr>
           in case pauseChan p1 of
                None \<Rightarrow> Some (paused p1, p1)
              | Some buf \<Rightarrow>
                  if length buf < pauseChanCap
                  then Some (paused p1, p1\<lparr>pauseChan := Some (buf @ [paused p1])\<rparr>)
                  else None)"

definition Stop :: "player \<Rightarrow> bool \<times> player" where
  "Stop p =
     (let hadContent = (current p \<noteq> None \<or> length (queue p) > 0);
          p1 = p\<lparr>queue := [], current := None, loop := False, paused := False\<rparr>;
          p2 = (case cancelPlayback p of
                  None \<Rightarrow> p1
                | Some c \<Rightarrow> p1\<lparr>skipRequested := True, cancelPlayback := Some Cancelled\<rparr>)
      in (hadContent, p2))"

definition ToggleLoop :: "bool option \<Rightarrow> player \<Rightarrow> bool \<times> player" where
  "ToggleLoop explicit p =
     (let p1 = (case explicit of
                  Some e \<Rightarrow> p\<lparr>loop := (e \<and> current p \<noteq> None)\<rparr>
                | None \<Rightarrow> if current p \<noteq> None then p\<lparr>loop := \<not> loop p\<rparr> else p)
      in (loop p1, p1))"

definition Shutdown :: "player \<Rightarrow> player" where
  "Shutdown p =
     (let p1 = (case cancelPlayback p of
                  None \<Rightarrow> p
                | Some c \<Rightarrow> p\<lparr>cancelPlayback := Some Cancelled\<rparr>)
      in p1\<lparr>voice := None\<rparr>)"

subsection \<open>The playback task\<close>

definition nextTrack :: "player \<Rightarrow> (track option \<times> bool) \<times> player" where
  "nextTrack p =
     (let p1 = p\<lparr>skipRequested := False\<rparr>;
          p2 = (case current p1 of
                  Some c \<Rightarrow> if loop p1 then p1\<lparr>queue := queue p1 @ [c]\<rparr> else p1
                | None \<Rightarrow> p1)
      in case queue p2 of
           [] \<Rightarrow> ((None, False), p2\<lparr>current := None\<rparr>)
         | t # rest \<Rightarrow> ((Some t, False), p2\<lparr>queue := rest, current := Some t\<rparr>))"

subsection \<open>Formatting helpers of the Go library\<close>

text \<open>\<^verbatim>\<open>fmt\<close>'s \<^verbatim>\<open>%d\<close> and \<^verbatim>\<open>%02d\<close> on an \<^verbatim>\<open>int\<close>, and \<^verbatim>\<open>strings.Join\<close>.\<close>

definition digit :: "nat \<Rightarrow> char" where
  "digit n = ''0123456789'' ! n"

fun decimal :: "nat \<Rightarrow> string" where
  "decimal n = (if n < 10 then [digit n] else decimal (n div 10) @ [digit (n mod 10)])"

declare decimal.simps [simp del]

definition fmt_d :: "int \<Rightarrow> string" where
  "fmt_d n = (if n < 0 then ''-'' @ decimal (nat (- n)) else decimal (nat n))"

text \<open>
  \<^verbatim>\<open>%02d\<close>: the minimum width 2 counts the sign, and the zeros go between the sign and
  the digits.
\<close>

definition fmt_02d :: "int \<Rightarrow> string" where
  "fmt_02d n =
     (if n < 0
      then ''-'' @ replicate (1 - length (decimal (nat (- n)))) (CHR ''0'') @ decimal (nat (- n))
      else replicate (2 - length (decimal (nat n))) (CHR ''0'') @ decimal (nat n))"

fun Join :: "string list \<Rightarrow> string \<Rightarrow> string" where
  "Join [] sep = []"
| "Join [x] sep = x"
| "Join (x # y # ys) sep = x @ sep @ Join (y # ys) sep"

definition CRLF :: string where
  "CRLF = [CHR 0x0D, CHR 0x0A]"

subsection \<open>The decode subprocess and the frame pipeline\<close>

definition pcmFrameSize :: nat where
  "pcmFrameSize = 960"

definition pcmChannelCount :: nat where
  "pcmChannelCount = 2"

definition sampleRate :: nat where
  "sampleRate = 48000"

definition opusBitrate :: nat where
  "opusBitrate = 128000"

definition opusFrameCapacity :: nat where
  "opusFrameCapacity = 4096"

text \<open>
  \<^verbatim>\<open>headersToLines\<close>: one line per entry of the map, in the order \<^verbatim>\<open>range\<close> yields them,
  then \<^verbatim>\<open>sort.Strings\<close> (byte-wise lexicographic order, the order of \<open>string\<close> here).
\<close>

definition headersToLines :: "(string \<times> string) list \<Rightarrow> string" where
  "headersToLines headers =
     (if length headers = 0 then []
      else let pairs = map (\<lambda>(k, v). k @ '': '' @ v) headers
           in Join (sort pairs) CRLF @ CRLF)"

definition buildFFMpegArgs :: "track \<Rightarrow> string list" where
  "buildFFMpegArgs t =
     (let args = [''-reconnect'', ''1'',
                  ''-reconnect_streamed'', ''1'',
                  ''-reconnect_delay_max'', ''5''];
          headerLines = headersToLines (HTTPHeaders t);
          args1 = (if headerLines \<noteq> [] then args @ [''-headers'', headerLines] else args)
      in args1 @
         [''-i'', StreamURL t,
          ''-vn'',
          ''-af'', ''loudnorm=I=-16:LRA=11:TP=-1.5'',
          ''-f'', ''s16le'',
          ''-ac'', fmt_d (int pcmChannelCount),
          ''-ar'', fmt_d (int sampleRate),
          ''pipe:1''])"

text \<open>
  \<^verbatim>\<open>io.ReadFull\<close> fills the whole buffer or reports why it could not:
  \<^verbatim>\<open>io.EOF\<close> when no byte was read, \<^verbatim>\<open>io.ErrUnexpectedEOF\<close> when the stream ended
  inside the buffer, any other error as it is.
\<close>

datatype read_result =
    ReadOK "8 word list" "8 word list"
  | ReadEOF
  | ReadUnexpectedEOF
  | ReadFailed goerror

definition ReadFull :: "nat \<Rightarrow> 8 word list \<Rightarrow> read_end \<Rightarrow> read_result" where
  "ReadFull n bs e =
     (if n \<le> length bs then ReadOK (take n bs) (drop n bs)
      else case e of
             EndErr m \<Rightarrow> ReadFailed m
           | EndEOF \<Rightarrow> if bs = [] then ReadEOF else ReadUnexpectedEOF)"

text \<open>The buffers of \<^verbatim>\<open>streamTrack\<close>: \<^verbatim>\<open>len(pcmBuf)\<close> and \<^verbatim>\<open>len(byteBuf)\<close>.\<close>

definition pcmBufLen :: nat where
  "pcmBufLen = pcmFrameSize * pcmChannelCount"

definition byteBufLen :: nat where
  "byteBufLen = pcmBufLen * 2"

text \<open>\<^verbatim>\<open>int16(binary.LittleEndian.Uint16(byteBuf[i*2 : i*2+2]))\<close> for each sample.\<close>

fun decodePCM :: "8 word list \<Rightarrow> 16 word list" where
  "decodePCM (lo # hi # rest) = (or (ucast lo) (push_bit 8 (ucast hi))) # decodePCM rest"
| "decodePCM _ = []"

text \<open>
  What \<^verbatim>\<open>streamTrack\<close> meets outside the player at one of its steps: the answers of
  \<^verbatim>\<open>gopus.NewEncoder\<close>, \<^verbatim>\<open>cmd.StdoutPipe\<close> and \<^verbatim>\<open>cmd.Start\<close> (\<open>None\<close> for success;
  \<open>lookPathErr\<close> is the error \<^verbatim>\<open>exec.CommandContext\<close> keeps when it cannot find the
  executable, which \<^verbatim>\<open>Start\<close> reports first), the subprocess as a function from its
  arguments to its output, the encoder, and three facts of scheduling: how many more
  bytes the subprocess gets to write once the context is cancelled, whether a \<^verbatim>\<open>select\<close>
  takes \<^verbatim>\<open>ctx.Done()\<close> when another of its cases is ready as well, and whether the
  voice connection is ready to take a packet.
\<close>

record pipeline_env =
  newEncoderErr :: "nat \<Rightarrow> nat \<Rightarrow> goerror option"
  lookPathErr :: "goerror option"
  stdoutPipeErr :: "goerror option"
  startErr :: "goerror option"
  ffmpeg :: "string list \<Rightarrow> 8 word list \<times> read_end"
  encode :: "encoder \<Rightarrow> 16 word list \<Rightarrow> nat \<Rightarrow> nat \<Rightarrow> goerror + 8 word list"
  written :: nat
  doneFirst :: bool
  sendReady :: bool

text \<open>
  The context handed to \<^verbatim>\<open>streamTrack\<close> is the one whose cancel function \<^verbatim>\<open>playLoop\<close>
  stored in \<^verbatim>\<open>p.cancelPlayback\<close> just before the call, and the field is not assigned
  again until \<^verbatim>\<open>streamTrack\<close> has returned. So \<^verbatim>\<open>ctx.Err() != nil\<close>, and likewise
  \<^verbatim>\<open>ctx.Done()\<close> being ready, is read off that field.
\<close>

definition ctxErr :: "player \<Rightarrow> bool" where
  "ctxErr p = (cancelPlayback p = Some Cancelled)"

text \<open>
  \<^verbatim>\<open>exec.CommandContext\<close> kills the subprocess once the context is cancelled. Of the
  output it would have delivered, the bytes written before the kill (\<open>n\<close> of them) can
  still be read, and then the stream ends with \<^verbatim>\<open>io.EOF\<close>. A subprocess that had
  written everything is not affected.
\<close>

definition killedOutput :: "nat \<Rightarrow> 8 word list \<times> read_end \<Rightarrow> 8 word list \<times> read_end" where
  "killedOutput n out =
     (case out of (bs, e) \<Rightarrow> if n < length bs then (take n bs, EndEOF) else (bs, e))"

text \<open>
  One step of the loop of \<^verbatim>\<open>streamTrack\<close>, from one \<open>point\<close> to the next or to the
  return. The first \<^verbatim>\<open>select\<close> takes a case that is ready: \<^verbatim>\<open>ctx.Done()\<close> when the
  context is cancelled, the receive when the pause channel holds a value, and the
  100 ms timeout when neither comes first. After a received \<^verbatim>\<open>true\<close> the code falls
  through to the read. The second \<^verbatim>\<open>select\<close> has no timeout: with a live context and
  a voice connection that is not ready the step does not happen (the state stays).
\<close>

definition streamLoop :: "pipeline_env \<Rightarrow> track \<Rightarrow> pipe \<Rightarrow> player \<Rightarrow> player" where
  "streamLoop env t st p =
     (case point st of
        LoopTop \<Rightarrow>
          if ctxErr p then p\<lparr>task := Returned (Some Canceled)\<rparr>
          else p\<lparr>task := Pumping t (st\<lparr>point := Locking\<rparr>)\<rparr>
      | Locking \<Rightarrow>
          if paused p then p\<lparr>task := Pumping t (st\<lparr>point := PauseSelect\<rparr>)\<rparr>
          else p\<lparr>task := Pumping t (st\<lparr>point := Reading\<rparr>)\<rparr>
      | PauseSelect \<Rightarrow>
          (case pauseChan p of
             Some (b # buf) \<Rightarrow>
               if ctxErr p \<and> doneFirst env then p\<lparr>task := Returned (Some Canceled)\<rparr>
               else if \<not> b
                    then p\<lparr>pauseChan := Some buf, task := Pumping t (st\<lparr>point := LoopTop\<rparr>)\<rparr>
                    else p\<lparr>pauseChan := Some buf, task := Pumping t (st\<lparr>point := Reading\<rparr>)\<rparr>
           | _ \<Rightarrow>
               if ctxErr p then p\<lparr>task := Returned (Some Canceled)\<rparr>
               else p\<lparr>task := Pumping t (st\<lparr>point := LoopTop\<rparr>)\<rparr>)
      | Reading \<Rightarrow>
          (case (if ctxErr p then killedOutput (written env) (reader st) else reader st) of
             (bs, e) \<Rightarrow>
               (case ReadFull byteBufLen bs e of
                  ReadEOF \<Rightarrow> p\<lparr>task := Returned None\<rparr>
                | ReadUnexpectedEOF \<Rightarrow> p\<lparr>task := Returned None\<rparr>
                | ReadFailed m \<Rightarrow> p\<lparr>task := Returned (Some (Wrapped ''pcm read: '' m))\<rparr>
                | ReadOK frame rest \<Rightarrow>
                    (case encode env (opusEncoder st) (decodePCM frame) pcmFrameSize
                            opusFrameCapacity of
                       Inl m \<Rightarrow> p\<lparr>task := Returned (Some (Wrapped ''opus encode: '' m))\<rparr>
                     | Inr pk \<Rightarrow>
                         p\<lparr>task := Pumping t
                                     (st\<lparr>point := Sending, reader := (rest, e), packet := pk\<rparr>)\<rparr>)))
      | Sending \<Rightarrow>
          if ctxErr p \<and> (doneFirst env \<or> \<not> sendReady env)
          then p\<lparr>task := Returned (Some Canceled)\<rparr>
          else if sendReady env
               then p\<lparr>task := Pumping t (st\<lparr>point := LoopTop, sent := sent st @ [packet st]\<rparr>)\<rparr>
               else p)"

text \<open>
  One step of \<^verbatim>\<open>streamTrack\<close>: at the entry it reads \<^verbatim>\<open>p.voice\<close>; then it makes the
  encoder and starts the subprocess (\<^verbatim>\<open>cmd.Start\<close> answers with the error of the
  context when that is cancelled already); then it runs the loop. \<open>Returned\<close> holds the
  value of the \<^verbatim>\<open>return\<close> statement reached.
\<close>

definition streamTrack :: "pipeline_env \<Rightarrow> track \<Rightarrow> player \<Rightarrow> player" where
  "streamTrack env t p =
     (case task p of
        Streaming t0 \<Rightarrow>
          (case voice p of
             None \<Rightarrow> p\<lparr>task := Returned (Some (Plain ''voice connection not established''))\<rparr>
           | Some vc \<Rightarrow> p\<lparr>task := Launching t\<rparr>)
      | Launching t0 \<Rightarrow>
          (case newEncoderErr env sampleRate pcmChannelCount of
             Some m \<Rightarrow> p\<lparr>task := Returned (Some (Wrapped ''opus encoder: '' m))\<rparr>
           | None \<Rightarrow>
               (case stdoutPipeErr env of
                  Some m \<Rightarrow> p\<lparr>task := Returned (Some (Wrapped ''ffmpeg stdout: '' m))\<rparr>
                | None \<Rightarrow>
                    (case lookPathErr env of
                       Some m \<Rightarrow> p\<lparr>task := Returned (Some (Wrapped ''ffmpeg start: '' m))\<rparr>
                     | None \<Rightarrow>
                         if ctxErr p
                         then p\<lparr>task := Returned (Some (Wrapped ''ffmpeg start: '' Canceled))\<rparr>
                         else (case startErr env of
                                 Some m \<Rightarrow>
                                   p\<lparr>task := Returned (Some (Wrapped ''ffmpeg start: '' m))\<rparr>
                               | None \<Rightarrow>
                                   p\<lparr>task := Pumping t
                                     \<lparr>point = LoopTop,
                                      opusEncoder =
                                        SetBitrate opusBitrate (NewEncoder sampleRate pcmChannelCount),
                                      reader = ffmpeg env (buildFFMpegArgs t),
                                      packet = [], sent = []\<rparr>\<rparr>))))
      | Pumping t0 st \<Rightarrow> streamLoop env t st p
      | _ \<Rightarrow> p)"

text \<open>
  One step of \<^verbatim>\<open>playLoop\<close>: one of its critical sections, or one step of the call of
  \<^verbatim>\<open>streamTrack\<close>.
\<close>

definition playLoopStep :: "pipeline_env \<Rightarrow> player \<Rightarrow> player" where
  "playLoopStep env p =
     (case task p of
        NoTask \<Rightarrow> p
      | AtTop \<Rightarrow>
          (case nextTrack p of
             ((None, repeat), p1) \<Rightarrow> p1\<lparr>task := GoIdle\<rparr>
           | ((Some t, repeat), p1) \<Rightarrow> p1\<lparr>task := Starting t repeat\<rparr>)
      | GoIdle \<Rightarrow>
          (scheduleDisconnectLocked (p\<lparr>playing := False, paused := False\<rparr>))\<lparr>task := NoTask\<rparr>
      | Starting t repeat \<Rightarrow>
          (let p1 = (if \<not> repeat then p\<lparr>announced := announced p @ [(t, loop p)]\<rparr> else p)
           in p1\<lparr>cancelPlayback := Some Live, pauseChan := Some [], task := Streaming t\<rparr>)
      | Streaming t \<Rightarrow> streamTrack env t p
      | Launching t \<Rightarrow> streamTrack env t p
      | Pumping t st \<Rightarrow> streamTrack env t p
      | Returned err \<Rightarrow>
          (let p1 = p\<lparr>cancelPlayback := None, pauseChan := None\<rparr>
           in if errorsIsCanceled err then p1\<lparr>task := AtTop\<rparr>
              else case err of
                     None \<Rightarrow> p1\<lparr>task := AtTop\<rparr>
                   | Some e \<Rightarrow>
                       p1\<lparr>logged := logged p1 @ [''playback error: '' @ errorText e],
                         task := AtTop\<rparr>))"

subsection \<open>The player as a transition system\<close>

text \<open>
  Every method holds the mutex for its whole effect, so a run of the player is a
  sequence of these steps: the calls of the command handlers, the firing of the idle
  timer, and the steps of the playback task. \<open>None\<close>: the step cannot happen in this
  state (or, for \<^verbatim>\<open>Pause\<close>, does not return). The firing of the timer and its callback
  are one step, taken while the field holds the timer; a callback that had fired and
  was waiting for the mutex when \<^verbatim>\<open>Enqueue\<close> stopped the timer is not a step of its own.
\<close>

datatype action =
    AEnsureConnected string "string option"
  | AEnqueue track
  | ASkip
  | APause
  | AStop
  | AToggleLoop "bool option"
  | AShutdown
  | ATimer
  | ATask pipeline_env

fun step :: "action \<Rightarrow> player \<Rightarrow> player option" where
  "step (AEnsureConnected c e) p = Some (snd (EnsureConnected c e p))"
| "step (AEnqueue t) p = Some (snd (Enqueue t p))"
| "step ASkip p = Some (snd (Skip p))"
| "step APause p = map_option snd (Pause p)"
| "step AStop p = Some (snd (Stop p))"
| "step (AToggleLoop e) p = Some (snd (ToggleLoop e p))"
| "step AShutdown p = Some (Shutdown p)"
| "step ATimer p = (if disconnectTimer p then Some (timerFired p) else None)"
| "step (ATask env) p = (if task p = NoTask then None else Some (playLoopStep env p))"

fun run :: "action list \<Rightarrow> player \<Rightarrow> player option" where
  "run [] p = Some p"
| "run (a # as) p = (case step a p of None \<Rightarrow> None | Some p1 \<Rightarrow> run as p1)"

inductive reachable :: "player \<Rightarrow> bool" where
  reach_init: "reachable (NewPlayer g)"
| reach_step: "reachable p \<Longrightarrow> step a p = Some p1 \<Longrightarrow> reachable p1"


subsection \<open>Concrete tracks and surroundings\<close>

text \<open>Track A lasts 30 s, track B is live; neither needs request headers.\<close>

definition trackA :: track where
  "trackA =
     \<lparr>ID = ''a'', Title = ''A'', Author = ''x'', WebURL = ''https://example.org/a'',
      StreamURL = ''https://cdn.example.org/a'', Thumbnail = [], Duration = 30000000000,
      Source = ''YouTube'', RequestedBy = ''<@1>'', RequestChannelID = ''c'',
      HTTPHeaders = [], QueuedAt = 0\<rparr>"

definition trackB :: track where
  "trackB =
     \<lparr>ID = ''b'', Title = ''B'', Author = ''y'', WebURL = ''https://example.org/b'',
      StreamURL = ''https://cdn.example.org/b'', Thumbnail = [], Duration = 0,
      Source = ''SoundCloud'', RequestedBy = ''<@1>'', RequestChannelID = ''c'',
      HTTPHeaders = [], QueuedAt = 1\<rparr>"

text \<open>
  Surroundings in which everything starts, the subprocess writes \<open>bs\<close> and then closes
  its output, the encoder answers with a one-byte packet, the voice connection takes
  every packet, a kill leaves nothing more to read, and a \<^verbatim>\<open>select\<close> with two ready
  cases does not take \<^verbatim>\<open>ctx.Done()\<close>.
\<close>

definition envOf :: "8 word list \<Rightarrow> pipeline_env" where
  "envOf bs =
     \<lparr>newEncoderErr = (\<lambda>rate channels. None), lookPathErr = None, stdoutPipeErr = None,
      startErr = None, ffmpeg = (\<lambda>args. (bs, EndEOF)),
      encode = (\<lambda>enc pcm n cap. Inr [0]), written = 0, doneFirst = False, sendReady = True\<rparr>"

text \<open>
  A is enqueued on a connected player and the task has just begun to stream it: it is at
  the entry of \<^verbatim>\<open>streamTrack\<close>.
\<close>

definition playingA :: "player option" where
  "playingA =
     run [AEnsureConnected ''v'' None, AEnqueue trackA, ATask (envOf []), ATask (envOf [])]
       (NewPlayer ''g'')"

text \<open>
  \<^verbatim>\<open>Stop\<close> arrives after the task took A from the queue and before it stored the
  cancel function; the task then begins to stream A.
\<close>

definition stoppedEarly :: "player option" where
  "stoppedEarly =
     run [AEnsureConnected ''v'' None, AEnqueue trackA, ATask (envOf []), AStop,
          ATask (envOf [])]
       (NewPlayer ''g'')"

text \<open>
  A plays with loop on and its stream has just ended (the subprocess wrote nothing):
  the task has cleared the cancel function and not yet called \<^verbatim>\<open>nextTrack\<close>.
\<close>

definition betweenTracks :: "player option" where
  "betweenTracks =
     run [AEnsureConnected ''v'' None, AEnqueue trackA, ATask (envOf []), ATask (envOf []),
          AToggleLoop (Some True),
          ATask (envOf []), ATask (envOf []), ATask (envOf []), ATask (envOf []), ATask (envOf []),
          ATask (envOf [])]
       (NewPlayer ''g'')"

text \<open>A player that was connected and has not been given a track.\<close>

definition connectedOnly :: "player option" where
  "connectedOnly = run [AEnsureConnected ''v'' None] (NewPlayer ''g'')"

text \<open>A was enqueued on a player without a voice connection, and the task ran to its end.\<close>

definition idleNoVoice :: "player option" where
  "idleNoVoice =
     run [AEnqueue trackA, ATask (envOf []), ATask (envOf []), ATask (envOf []),
          ATask (envOf []), ATask (envOf []), ATask (envOf [])]
       (NewPlayer ''g'')"

text \<open>A was played to its end on a connected player; then the process shuts down.\<close>

definition idleArmed :: "player option" where
  "idleArmed =
     run [AEnsureConnected ''v'' None, AEnqueue trackA, ATask (envOf []), ATask (envOf []),
          ATask (envOf []), ATask (envOf []), ATask (envOf []), ATask (envOf []), ATask (envOf []),
          ATask (envOf []), ATask (envOf []), ATask (envOf [])]
       (NewPlayer ''g'')"

definition shutDownIdle :: "player option" where
  "shutDownIdle = (case idleArmed of None \<Rightarrow> None | Some p \<Rightarrow> step AShutdown p)"

text \<open>A and B are enqueued on a fresh player and the task has taken up A.\<close>

definition queuedAB :: "player option" where
  "queuedAB =
     run [AEnqueue trackA, AEnqueue trackB, ATask (envOf []), ATask (envOf [])]
       (NewPlayer ''g'')"


text \<open>One header map in the two orders in which \<^verbatim>\<open>range\<close> can enumerate it.\<close>

definition headersUC :: "(string \<times> string) list" where
  "headersUC = [(''User-Agent'', ''kvazar''), (''Cookie'', ''a=b'')]"

definition headersCU :: "(string \<times> string) list" where
  "headersCU = [(''Cookie'', ''a=b''), (''User-Agent'', ''kvazar'')]"

text \<open>
  A and B are enqueued on a connected player; the task has taken A from the queue and
  has not yet stored a cancel function (it is about to announce A).
\<close>

definition takenA :: "player option" where
  "takenA =
     run [AEnsureConnected ''v'' None, AEnqueue trackA, AEnqueue trackB, ATask (envOf [])]
       (NewPlayer ''g'')"

text \<open>
  A is streaming on a connected player: the subprocess has one frame to deliver, and
  the pipeline is about to read it.
\<close>

definition readingA :: "player option" where
  "readingA =
     run [AEnsureConnected ''v'' None, AEnqueue trackA,
          ATask (envOf (replicate 3840 0)), ATask (envOf (replicate 3840 0)),
          ATask (envOf (replicate 3840 0)), ATask (envOf (replicate 3840 0)),
          ATask (envOf (replicate 3840 0)), ATask (envOf (replicate 3840 0))]
       (NewPlayer ''g'')"

subsection \<open>The order of play\<close>

text \<open>
  The tracks in the order the playback task takes them up: those it has announced, the
  one it holds between \<^verbatim>\<open>nextTrack\<close> and the announcement, and those still waiting.
  \<open>enqueued\<close> lists the tracks of the \<^verbatim>\<open>Enqueue\<close> calls of a run, in call order.
\<close>

definition pending :: "player \<Rightarrow> track list" where
  "pending p = (case task p of Starting t repeat \<Rightarrow> [t] | _ \<Rightarrow> [])"






text \<open>
  A playback task exists only while \<^verbatim>\<open>playing\<close> is set, and it never holds a track with
  \<^verbatim>\<open>repeat\<close> set (\<^verbatim>\<open>nextTrack\<close> always returns false for it).
\<close>

definition taskOK :: "player \<Rightarrow> bool" where
  "taskOK p =
     ((task p = NoTask \<or> playing p)
      \<and> (case task p of Starting t repeat \<Rightarrow> repeat = False | _ \<Rightarrow> True))"

subsection \<open>The pipeline and the cancel function\<close>

text \<open>
  \<open>inPipeline\<close>: the task is inside \<^verbatim>\<open>streamTrack\<close>. \<open>holdsHandle\<close>: the task is between
  storing the cancel function and clearing it.
\<close>

fun inPipeline :: "pc \<Rightarrow> bool" where
  "inPipeline (Streaming t) = True"
| "inPipeline (Launching t) = True"
| "inPipeline (Pumping t st) = True"
| "inPipeline c = False"

fun holdsHandle :: "pc \<Rightarrow> bool" where
  "holdsHandle (Returned r) = True"
| "holdsHandle c = inPipeline c"

definition handleOK :: "player \<Rightarrow> bool" where
  "handleOK p = ((cancelPlayback p \<noteq> None) = holdsHandle (task p))"

text \<open>
  \<open>pump\<close> is a step of the task while it is inside \<^verbatim>\<open>streamTrack\<close> and nothing once that
  has returned; \<open>pumps\<close> is a run of such steps, each with its own surroundings.
\<close>

definition pump :: "pipeline_env \<Rightarrow> player \<Rightarrow> player" where
  "pump env p = (if inPipeline (task p) then playLoopStep env p else p)"

fun pumps :: "pipeline_env list \<Rightarrow> player \<Rightarrow> player" where
  "pumps [] p = p"
| "pumps (env # envs) p = pumps envs (pump env p)"

text \<open>
  An upper bound on the steps that a pipeline whose context is cancelled takes before
  it returns.
\<close>

fun stepsLeft :: "pc \<Rightarrow> nat" where
  "stepsLeft (Streaming t) = 2"
| "stepsLeft (Launching t) = 1"
| "stepsLeft (Pumping t st) =
     (case point st of LoopTop \<Rightarrow> 1 | Sending \<Rightarrow> 2 | Reading \<Rightarrow> 3 | PauseSelect \<Rightarrow> 4 | Locking \<Rightarrow> 5)"
| "stepsLeft c = 0"

text \<open>The encoder answers every frame with a packet.\<close>

definition encodes :: "pipeline_env \<Rightarrow> bool" where
  "encodes env =
     (\<forall>enc pcm. case encode env enc pcm pcmFrameSize opusFrameCapacity of
                  Inl m \<Rightarrow> False | Inr pk \<Rightarrow> True)"

subsection \<open>Rendering a duration (internal/media/track.go)\<close>

text \<open>
  \<^verbatim>\<open>Duration.Seconds()\<close> computes in \<^verbatim>\<open>float64\<close>:
  \<^verbatim>\<open>sec := d / Second; nsec := d % Second; return float64(sec) + float64(nsec)/1e9\<close>.
  A \<^verbatim>\<open>float64\<close> value is the rational number it stands for, and every operation
  rounds its exact result to the nearest value with a 53-bit significand, ties to the
  even significand (IEEE 754 binary64; the smallest spacing is \<open>2 ^ -1074\<close>, and no
  result here comes near the largest finite value). \<open>float64 x\<close> is that rounding:
  the spacing around \<open>x\<close>, in units of \<open>2 ^ -1074\<close>, is \<open>g\<close>.
\<close>

definition roundHalfEven :: "rat \<Rightarrow> int" where
  "roundHalfEven q =
     (let f = \<lfloor>q\<rfloor>; r = q - of_int f
      in if r < 1 / 2 then f else if 1 / 2 < r then f + 1 else if even f then f else f + 1)"

definition minExp :: nat where
  "minExp = 1074"

definition float64 :: "rat \<Rightarrow> rat" where
  "float64 x =
     (let a = \<bar>x\<bar>;
          b = bitlen \<lfloor>a * 2 ^ minExp\<rfloor>;
          g = 2 ^ nat (b - 53);
          n = roundHalfEven (a * 2 ^ minExp / of_int g)
      in sgn x * of_int (n * g) / 2 ^ minExp)"

text \<open>
  Go's \<^verbatim>\<open>/\<close> and \<^verbatim>\<open>%\<close> on integers truncate towards zero (\<open>sdiv\<close>, \<open>smod\<close>), and so
  does the conversion \<^verbatim>\<open>int(f)\<close> of a \<^verbatim>\<open>float64\<close>.
\<close>

definition Seconds :: "int \<Rightarrow> rat" where
  "Seconds d =
     (let sec = d sdiv 1000000000; nsec = d smod 1000000000
      in float64 (float64 (of_int sec) + float64 (float64 (of_int nsec) / float64 1000000000)))"

definition toInt :: "rat \<Rightarrow> int" where
  "toInt f = (if 0 \<le> f then \<lfloor>f\<rfloor> else \<lceil>f\<rceil>)"

definition HumanDuration :: "track \<Rightarrow> string" where
  "HumanDuration t =
     (if Duration t = 0 then ''live''
      else let seconds = toInt (Seconds (sint (Duration t)));
               hours = seconds sdiv 3600;
               minutes = (seconds smod 3600) sdiv 60;
               secs = seconds smod 60
           in if 0 < hours then fmt_d hours @ '':'' @ fmt_02d minutes @ '':'' @ fmt_02d secs
              else fmt_02d minutes @ '':'' @ fmt_02d secs)"

text \<open>
  A track of 1 h 2 min 5 s, and one of 16777216.999999999 s (a little over 194 days).
\<close>

definition trackHour :: track where
  "trackHour = trackA\<lparr>Duration := 3725000000000\<rparr>"

definition trackLong :: track where
  "trackLong = trackA\<lparr>Duration := 16777216999999999\<rparr>"

section \<open>Evaluation of the concrete states\<close>

lemmas player_ops =
  errorsIsCanceled_def NewPlayer_def EnsureConnected_def Enqueue_def Skip_def Pause_def Stop_def ToggleLoop_def
  Shutdown_def nextTrack_def playLoopStep_def scheduleDisconnectLocked_def
  cancelDisconnectTimerLocked_def timerFired_def pauseChanCap_def Let_def

lemmas pipeline_ops =
  streamTrack_def streamLoop_def ctxErr_def killedOutput_def ReadFull_def envOf_def
  byteBufLen_def pcmBufLen_def pcmFrameSize_def pcmChannelCount_def

text \<open>A step of \<^verbatim>\<open>streamTrack\<close> changes the control point and the pause channel only.\<close>

lemma streamLoop_fields:
  "guild (streamLoop env t st p) = guild p
   \<and> queue (streamLoop env t st p) = queue p
   \<and> current (streamLoop env t st p) = current p
   \<and> loop (streamLoop env t st p) = loop p
   \<and> playing (streamLoop env t st p) = playing p
   \<and> paused (streamLoop env t st p) = paused p
   \<and> skipRequested (streamLoop env t st p) = skipRequested p
   \<and> cancelPlayback (streamLoop env t st p) = cancelPlayback p
   \<and> voice (streamLoop env t st p) = voice p
   \<and> disconnectTimer (streamLoop env t st p) = disconnectTimer p
   \<and> announced (streamLoop env t st p) = announced p
   \<and> logged (streamLoop env t st p) = logged p"
  by (cases "point st")
     (simp_all add: streamLoop_def
        split: option.splits list.splits prod.splits read_result.splits sum.splits)

lemma streamTrack_fields [simp]:
  "guild (streamTrack env t p) = guild p"
  "queue (streamTrack env t p) = queue p"
  "current (streamTrack env t p) = current p"
  "loop (streamTrack env t p) = loop p"
  "playing (streamTrack env t p) = playing p"
  "paused (streamTrack env t p) = paused p"
  "skipRequested (streamTrack env t p) = skipRequested p"
  "cancelPlayback (streamTrack env t p) = cancelPlayback p"
  "voice (streamTrack env t p) = voice p"
  "disconnectTimer (streamTrack env t p) = disconnectTimer p"
  "announced (streamTrack env t p) = announced p"
  "logged (streamTrack env t p) = logged p"
  by (cases "task p"; simp add: streamTrack_def streamLoop_fields split: option.splits)+

text \<open>Inside \<^verbatim>\<open>streamTrack\<close> a step leads to another point inside it or to its return.\<close>

lemma streamLoop_task:
  "inPipeline (task (streamLoop env t st (p\<lparr>task := Pumping t0 st\<rparr>)))
   \<or> (\<exists>r. task (streamLoop env t st (p\<lparr>task := Pumping t0 st\<rparr>)) = Returned r)"
  by (cases "point st")
     (simp_all add: streamLoop_def
        split: option.splits list.splits prod.splits read_result.splits sum.splits)

lemma streamTrack_task:
  "inPipeline (task p) \<Longrightarrow>
   inPipeline (task (streamTrack env t p)) \<or> (\<exists>r. task (streamTrack env t p) = Returned r)"
proof (cases "task p")
  case (Pumping t0 st)
  then have "p = p\<lparr>task := Pumping t0 st\<rparr>"
    by simp
  with Pumping streamLoop_task [where env = env and t = t and st = st and p = p and ?t0.0 = t0]
  show ?thesis
    by (simp add: streamTrack_def)
qed (simp_all add: streamTrack_def split: option.splits)

lemma playingA_eq:
  "playingA =
     Some \<lparr>guild = ''g'', queue = [], current = Some trackA, loop = False, playing = True,
           paused = False, skipRequested = False, cancelPlayback = Some Live,
           pauseChan = Some [], voice = Some ''v'', disconnectTimer = False,
           task = Streaming trackA, announced = [(trackA, False)], logged = []\<rparr>"
  by (simp add: playingA_def player_ops)

lemma run_reachable: "reachable p \<Longrightarrow> run as p = Some p1 \<Longrightarrow> reachable p1"
proof (induction as arbitrary: p)
  case Nil
  then show ?case by simp
next
  case (Cons a as)
  then show ?case
    by (auto split: option.splits intro: reachable.reach_step)
qed

lemma stoppedEarly_eq:
  "stoppedEarly =
     Some \<lparr>guild = ''g'', queue = [], current = None, loop = False, playing = True,
           paused = False, skipRequested = False, cancelPlayback = Some Live,
           pauseChan = Some [], voice = Some ''v'', disconnectTimer = False,
           task = Streaming trackA, announced = [(trackA, False)], logged = []\<rparr>"
  by (simp add: stoppedEarly_def player_ops)

lemma betweenTracks_eq:
  "betweenTracks =
     Some \<lparr>guild = ''g'', queue = [], current = Some trackA, loop = True, playing = True,
           paused = False, skipRequested = False, cancelPlayback = None,
           pauseChan = None, voice = Some ''v'', disconnectTimer = False,
           task = AtTop, announced = [(trackA, False)], logged = []\<rparr>"
  by (simp add: betweenTracks_def player_ops pipeline_ops)

lemma connectedOnly_eq:
  "connectedOnly =
     Some \<lparr>guild = ''g'', queue = [], current = None, loop = False, playing = False,
           paused = False, skipRequested = False, cancelPlayback = None,
           pauseChan = None, voice = Some ''v'', disconnectTimer = False,
           task = NoTask, announced = [], logged = []\<rparr>"
  by (simp add: connectedOnly_def player_ops)

lemma idleNoVoice_eq:
  "idleNoVoice =
     Some \<lparr>guild = ''g'', queue = [], current = None, loop = False, playing = False,
           paused = False, skipRequested = False, cancelPlayback = None,
           pauseChan = None, voice = None, disconnectTimer = True,
           task = NoTask, announced = [(trackA, False)],
           logged = [''playback error: voice connection not established'']\<rparr>"
  by (simp add: idleNoVoice_def player_ops pipeline_ops)

lemma idleArmed_eq:
  "idleArmed =
     Some \<lparr>guild = ''g'', queue = [], current = None, loop = False, playing = False,
           paused = False, skipRequested = False, cancelPlayback = None,
           pauseChan = None, voice = Some ''v'', disconnectTimer = True,
           task = NoTask, announced = [(trackA, False)], logged = []\<rparr>"
  by (simp add: idleArmed_def player_ops pipeline_ops)

lemma shutDownIdle_eq:
  "shutDownIdle =
     Some \<lparr>guild = ''g'', queue = [], current = None, loop = False, playing = False,
           paused = False, skipRequested = False, cancelPlayback = None,
           pauseChan = None, voice = None, disconnectTimer = True,
           task = NoTask, announced = [(trackA, False)], logged = []\<rparr>"
  by (simp add: shutDownIdle_def idleArmed_eq player_ops)

lemma takenA_eq:
  "takenA =
     Some \<lparr>guild = ''g'', queue = [trackB], current = Some trackA, loop = False, playing = True,
           paused = False, skipRequested = False, cancelPlayback = None,
           pauseChan = None, voice = Some ''v'', disconnectTimer = False,
           task = Starting trackA False, announced = [], logged = []\<rparr>"
  by (simp add: takenA_def player_ops)

lemma readingA_eq:
  "readingA =
     Some \<lparr>guild = ''g'', queue = [], current = Some trackA, loop = False, playing = True,
           paused = False, skipRequested = False, cancelPlayback = Some Live,
           pauseChan = Some [], voice = Some ''v'', disconnectTimer = False,
           task = Pumping trackA
                    \<lparr>point = Reading,
                     opusEncoder = \<lparr>encSampleRate = 48000, encChannels = 2,
                                    encBitrate = Some 128000\<rparr>,
                     reader = (replicate 3840 0, EndEOF), packet = [], sent = []\<rparr>,
           announced = [(trackA, False)], logged = []\<rparr>"
  by (simp add: readingA_def player_ops pipeline_ops NewEncoder_def SetBitrate_def
      sampleRate_def opusBitrate_def)

lemma run_Some_reachable: "run as (NewPlayer g) = Some p \<Longrightarrow> reachable p"
  using run_reachable [OF reachable.reach_init] by blast

lemma run_the_reachable:
  "run as (NewPlayer g) = Some p \<Longrightarrow> reachable (the (run as (NewPlayer g)))"
  by (simp add: run_Some_reachable)

lemma playingA_reachable: "reachable (the playingA)"
  using playingA_eq unfolding playingA_def by (rule run_the_reachable)

lemma takenA_reachable: "reachable (the takenA)"
  using takenA_eq unfolding takenA_def by (rule run_the_reachable)

lemma readingA_reachable: "reachable (the readingA)"
  using readingA_eq unfolding readingA_def by (rule run_the_reachable)

lemma stoppedEarly_reachable: "reachable (the stoppedEarly)"
  using stoppedEarly_eq unfolding stoppedEarly_def by (rule run_the_reachable)

lemma betweenTracks_reachable: "reachable (the betweenTracks)"
  using betweenTracks_eq unfolding betweenTracks_def by (rule run_the_reachable)

lemma connectedOnly_reachable: "reachable (the connectedOnly)"
  using connectedOnly_eq unfolding connectedOnly_def by (rule run_the_reachable)

lemma idleNoVoice_reachable: "reachable (the idleNoVoice)"
  using idleNoVoice_eq unfolding idleNoVoice_def by (rule run_the_reachable)

lemma idleArmed_reachable: "reachable (the idleArmed)"
  using idleArmed_eq unfolding idleArmed_def by (rule run_the_reachable)

lemma shutDownIdle_reachable: "reachable (the shutDownIdle)"
proof -
  have "step AShutdown (the idleArmed) = Some (the shutDownIdle)"
    by (simp add: shutDownIdle_eq idleArmed_eq Shutdown_def)
  then show ?thesis
    using idleArmed_reachable reachable.reach_step by blast
qed

lemma queuedAB_eq:
  "queuedAB =
     Some \<lparr>guild = ''g'', queue = [trackB], current = Some trackA, loop = False, playing = True,
           paused = False, skipRequested = False, cancelPlayback = Some Live,
           pauseChan = Some [], voice = None, disconnectTimer = False,
           task = Streaming trackA, announced = [(trackA, False)], logged = []\<rparr>"
  by (simp add: queuedAB_def player_ops)


section \<open>Enqueue\<close>

text \<open>
  C1, as the code has it: \<^verbatim>\<open>Enqueue\<close> appends the track to the queue, cancels a pending
  idle-disconnect timer, starts a playback task if none is active, and returns the
  length of the queue after the append, that is the 1-based position of the track among
  the waiting tracks; a track that is playing is not counted. Nothing else changes.
\<close>

theorem Enqueue_position:
  "queue (snd (Enqueue t p)) = queue p @ [t]
   \<and> fst (Enqueue t p) = length (queue (snd (Enqueue t p)))
   \<and> \<not> disconnectTimer (snd (Enqueue t p))
   \<and> playing (snd (Enqueue t p))
   \<and> task (snd (Enqueue t p)) = (if playing p then task p else AtTop)
   \<and> snd (Enqueue t p) =
       p\<lparr>queue := queue p @ [t], disconnectTimer := False, playing := True,
         task := (if playing p then task p else AtTop)\<rparr>"
  by (simp add: Enqueue_def cancelDisconnectTimerLocked_def Let_def)

text \<open>
  C1 as stated fails: B enqueued while A plays on an otherwise empty player is told
  position 1, where the claim says 2 (the length of the queue after the append plus one).
\<close>

theorem Enqueue_while_playing_counterexample:
  "reachable (the playingA)
   \<and> current (the playingA) = Some trackA
   \<and> queue (the playingA) = []
   \<and> fst (Enqueue trackB (the playingA)) = 1
   \<and> fst (Enqueue trackB (the playingA)) \<noteq> length (queue (snd (Enqueue trackB (the playingA)))) + 1"
  using playingA_reachable by (simp add: playingA_eq Enqueue_def cancelDisconnectTimerLocked_def Let_def)

section \<open>ToggleLoop\<close>

text \<open>
  C5: \<^verbatim>\<open>ToggleLoop(explicit)\<close> sets loop to (explicit and a current track is present) and
  returns it; with no argument it flips loop only if a current track is present and
  returns the resulting value. So \<^verbatim>\<open>ToggleLoop(true)\<close> returns false with no current
  track and true with one. No other field changes.
\<close>

theorem ToggleLoop_result:
  "ToggleLoop (Some e) p = (e \<and> current p \<noteq> None, p\<lparr>loop := (e \<and> current p \<noteq> None)\<rparr>)
   \<and> ToggleLoop None p =
       (if current p \<noteq> None then (\<not> loop p, p\<lparr>loop := \<not> loop p\<rparr>) else (loop p, p))
   \<and> fst (ToggleLoop x p) = loop (snd (ToggleLoop x p))
   \<and> (current p = None \<longrightarrow> fst (ToggleLoop (Some True) p) = False)
   \<and> (current p \<noteq> None \<longrightarrow> fst (ToggleLoop (Some True) p) = True)"
  by (cases x) (simp_all add: ToggleLoop_def)

theorem ToggleLoop_result_witness:
  "fst (ToggleLoop (Some True) (NewPlayer ''g'')) = False
   \<and> fst (ToggleLoop (Some True) (the playingA)) = True
   \<and> fst (ToggleLoop None (the playingA)) = True
   \<and> fst (ToggleLoop None (snd (ToggleLoop None (the playingA)))) = False"
  using ToggleLoop_result [of True "NewPlayer ''g''" "Some True"]
    ToggleLoop_result [of True "the playingA" "Some True"]
    ToggleLoop_result [of True "the playingA" None]
    ToggleLoop_result [of True "snd (ToggleLoop None (the playingA))" None]
  by (simp add: playingA_eq NewPlayer_def)

section \<open>Stop\<close>

text \<open>
  What holds of \<^verbatim>\<open>Stop\<close> in every state: it leaves the queue empty, no current track,
  loop and paused false; it calls the cancel function of a pipeline invocation in
  flight; it returns true exactly when there was a current track or a waiting one.
  The next \<^verbatim>\<open>nextTrack\<close> of the playback task finds nothing, and from the end of the
  cancelled invocation (or from the top of its loop) the task announces no track and
  ends, leaving the player not playing.
\<close>

theorem Stop_leaves_idle:
  "queue (snd (Stop p)) = []
   \<and> current (snd (Stop p)) = None
   \<and> \<not> loop (snd (Stop p))
   \<and> \<not> paused (snd (Stop p))
   \<and> cancelPlayback (snd (Stop p)) = map_option (\<lambda>c. Cancelled) (cancelPlayback p)
   \<and> fst (Stop p) = (current p \<noteq> None \<or> queue p \<noteq> [])
   \<and> fst (fst (nextTrack (snd (Stop p)))) = None
   \<and> (task p = AtTop \<or> task p = Returned r \<longrightarrow>
        task (playLoopStep e3 (playLoopStep e2 (playLoopStep e1 (snd (Stop p))))) = NoTask
        \<and> \<not> playing (playLoopStep e3 (playLoopStep e2 (playLoopStep e1 (snd (Stop p)))))
        \<and> announced (playLoopStep e3 (playLoopStep e2 (playLoopStep e1 (snd (Stop p)))))
            = announced p)"
  by (cases "cancelPlayback p"; cases r)
     (auto simp add: Stop_def nextTrack_def playLoopStep_def scheduleDisconnectLocked_def
        errorsIsCanceled_def Let_def)

text \<open>
  The scenario of the specification: A is current and streaming, B and C wait. After
  \<^verbatim>\<open>Stop\<close> and the return of the pipeline the task runs to its end without announcing B
  or C.
\<close>

theorem Stop_leaves_idle_witness:
  "fst (Stop (snd (Enqueue trackB (snd (Enqueue trackB (the playingA))))))
   \<and> queue (snd (Stop (snd (Enqueue trackB (snd (Enqueue trackB (the playingA))))))) = []
   \<and> cancelPlayback (snd (Stop (snd (Enqueue trackB (snd (Enqueue trackB (the playingA)))))))
       = Some Cancelled
   \<and> announced
       (playLoopStep (envOf []) (playLoopStep (envOf []) (playLoopStep (envOf [])
          (snd (Stop ((snd (Enqueue trackB (snd (Enqueue trackB (the playingA)))))
                        \<lparr>task := Returned (Some Canceled)\<rparr>))))))
       = [(trackA, False)]
   \<and> task
       (playLoopStep (envOf []) (playLoopStep (envOf []) (playLoopStep (envOf [])
          (snd (Stop ((snd (Enqueue trackB (snd (Enqueue trackB (the playingA)))))
                        \<lparr>task := Returned (Some Canceled)\<rparr>))))))
       = NoTask"
  using Stop_leaves_idle [of "snd (Enqueue trackB (snd (Enqueue trackB (the playingA))))" "Some Canceled"]
    Stop_leaves_idle [of "(snd (Enqueue trackB (snd (Enqueue trackB (the playingA)))))
                            \<lparr>task := Returned (Some Canceled)\<rparr>" "Some Canceled" "envOf []" "envOf []" "envOf []"]
  by (simp add: playingA_eq Enqueue_def cancelDisconnectTimerLocked_def Let_def)

text \<open>
  C4 at the failing input: \<^verbatim>\<open>Stop\<close> is called after the playback task took A from the
  queue and before it stored the cancel function of A's pipeline, while B waits.
  \<^verbatim>\<open>Stop\<close> returns true, empties the queue, clears the current track and finds no cancel
  function to call. The task then announces A and streams it with a live context: a
  track plays after \<^verbatim>\<open>Stop\<close>.
\<close>

theorem Stop_before_pipeline_starts:
  "reachable (the takenA)
   \<and> current (the takenA) = Some trackA
   \<and> queue (the takenA) = [trackB]
   \<and> task (the takenA) = Starting trackA False
   \<and> announced (the takenA) = []
   \<and> Stop (the takenA) = (True, (the takenA)\<lparr>queue := [], current := None\<rparr>)
   \<and> cancelPlayback (snd (Stop (the takenA))) = None
   \<and> task (playLoopStep (envOf []) (snd (Stop (the takenA)))) = Streaming trackA
   \<and> announced (playLoopStep (envOf []) (snd (Stop (the takenA)))) = [(trackA, False)]
   \<and> cancelPlayback (playLoopStep (envOf []) (snd (Stop (the takenA)))) = Some Live"
  using takenA_reachable
  by (simp add: takenA_eq Stop_def playLoopStep_def)

theorem Stop_before_pipeline_starts_witness:
  "cancelPlayback (snd (Stop (the takenA))) = None
   \<and> task (playLoopStep (envOf []) (snd (Stop (the takenA)))) = Streaming trackA
   \<and> announced (playLoopStep (envOf []) (snd (Stop (the takenA)))) = [(trackA, False)]"
  using Stop_before_pipeline_starts by blast

section \<open>Pause\<close>

text \<open>With nothing playing, \<^verbatim>\<open>Pause\<close> returns false and changes nothing.\<close>

lemma Pause_nothing_playing:
  "\<not> playing p \<or> current p = None \<Longrightarrow> Pause p = Some (False, p)"
  by (auto simp add: Pause_def)

text \<open>
  On an active player whose pause channel is absent or empty, \<^verbatim>\<open>Pause\<close> flips the flag,
  puts the new value into the channel if there is one, and returns the new value.
\<close>

lemma Pause_flips:
  "playing p \<Longrightarrow> current p \<noteq> None \<Longrightarrow> pauseChan p = None \<or> pauseChan p = Some [] \<Longrightarrow>
   Pause p =
     Some (\<not> paused p,
           p\<lparr>paused := \<not> paused p,
             pauseChan := map_option (\<lambda>buf. [\<not> paused p]) (pauseChan p)\<rparr>)"
  by (auto simp add: Pause_def pauseChanCap_def Let_def)

text \<open>On an active player whose pause channel is full, \<^verbatim>\<open>Pause\<close> does not return.\<close>

lemma Pause_blocks:
  "playing p \<Longrightarrow> current p \<noteq> None \<Longrightarrow> pauseChan p = Some (b # buf) \<Longrightarrow> Pause p = None"
  by (simp add: Pause_def pauseChanCap_def Let_def)

text \<open>
  A pipeline that waits in the \<^verbatim>\<open>select\<close> of its paused state takes the value of a call
  out of the channel, and the next call returns the opposite value: calls that find the
  channel drained alternate.
\<close>

lemma Pause_alternates_when_drained:
  assumes "playing p" and "current p \<noteq> None" and "pauseChan p = Some []"
    and "task p = Pumping t st" and "point st = PauseSelect" and "\<not> ctxErr p"
  shows "map_option fst (Pause p) = Some (\<not> paused p)
         \<and> pauseChan (snd (the (Pause p))) = Some [\<not> paused p]
         \<and> pauseChan (playLoopStep env (snd (the (Pause p)))) = Some []
         \<and> map_option fst (Pause (playLoopStep env (snd (the (Pause p))))) = Some (paused p)"
  using assms
  by (auto simp add: Pause_def pauseChanCap_def Let_def playLoopStep_def streamTrack_def
      streamLoop_def ctxErr_def)

text \<open>
  C6 at the failing input: A is streaming, the player is not paused, and \<^verbatim>\<open>Pause\<close> is
  called twice before the pipeline receives from the pause channel. The first call
  returns true and leaves its value in the one-slot channel; the second call does not
  return.
\<close>

theorem Pause_twice_blocks:
  "reachable (the playingA)
   \<and> playing (the playingA)
   \<and> current (the playingA) = Some trackA
   \<and> \<not> paused (the playingA)
   \<and> pauseChan (the playingA) = Some []
   \<and> map_option fst (Pause (the playingA)) = Some True
   \<and> pauseChan (snd (the (Pause (the playingA)))) = Some [True]
   \<and> Pause (snd (the (Pause (the playingA)))) = None"
  using playingA_reachable
  by (simp add: playingA_eq Pause_def pauseChanCap_def Let_def)

theorem Pause_twice_blocks_witness:
  "Pause (snd (the (Pause (the playingA)))) = None"
  using Pause_twice_blocks by simp

section \<open>The idle-disconnect timer\<close>

lemma playLoopStep_timer:
  "disconnectTimer (playLoopStep env p) = (if task p = GoIdle then True else disconnectTimer p)"
  by (cases "task p")
     (auto simp add: playLoopStep_def nextTrack_def scheduleDisconnectLocked_def Let_def
        split: option.splits list.splits prod.splits if_splits)

lemma playLoopStep_playing:
  "playing (playLoopStep env p) = (if task p = GoIdle then False else playing p)"
  by (cases "task p")
     (auto simp add: playLoopStep_def nextTrack_def scheduleDisconnectLocked_def Let_def
        split: option.splits list.splits prod.splits if_splits)

lemma step_timer_playing:
  "step a p = Some p1 \<Longrightarrow> disconnectTimer p \<longrightarrow> \<not> playing p \<Longrightarrow>
   disconnectTimer p1 \<longrightarrow> \<not> playing p1"
proof (cases a)
  case (ATask env)
  assume "step a p = Some p1" and "disconnectTimer p \<longrightarrow> \<not> playing p"
  with ATask show ?thesis
    by (auto simp add: playLoopStep_timer playLoopStep_playing split: if_splits)
next
  case APause
  assume "step a p = Some p1" and "disconnectTimer p \<longrightarrow> \<not> playing p"
  with APause show ?thesis
    by (auto simp add: Pause_def Let_def split: if_splits option.splits)
qed (auto simp add: EnsureConnected_def Enqueue_def Skip_def Stop_def ToggleLoop_def Shutdown_def
       timerFired_def cancelDisconnectTimerLocked_def Let_def split: option.splits if_splits)

lemma reachable_timer_playing: "reachable p \<Longrightarrow> disconnectTimer p \<longrightarrow> \<not> playing p"
proof (induction rule: reachable.induct)
  case (reach_init g)
  show ?case by (simp add: NewPlayer_def)
next
  case (reach_step p a p1)
  then show ?case using step_timer_playing by blast
qed

text \<open>
  C2, as the code has it: in every reachable state an armed timer implies that the
  player is not playing. \<^verbatim>\<open>Enqueue\<close> sets playing and disarms the timer. The playback
  task arms the timer in exactly one of its steps, the one that sets playing to false,
  whether or not a voice connection is held. The firing of the timer disarms it and
  drops the voice connection. \<^verbatim>\<open>Shutdown\<close> drops the voice connection and leaves the
  timer as it was.
\<close>

theorem timer_armed_implies_idle:
  "(reachable p \<longrightarrow> disconnectTimer p \<longrightarrow> \<not> playing p)
   \<and> \<not> disconnectTimer (snd (Enqueue t p))
   \<and> playing (snd (Enqueue t p))
   \<and> disconnectTimer (playLoopStep env p) = (if task p = GoIdle then True else disconnectTimer p)
   \<and> playing (playLoopStep env p) = (if task p = GoIdle then False else playing p)
   \<and> voice (playLoopStep env p) = voice p
   \<and> \<not> disconnectTimer (timerFired p)
   \<and> voice (timerFired p) = None
   \<and> disconnectTimer (Shutdown p) = disconnectTimer p
   \<and> voice (Shutdown p) = None"
proof -
  have "voice (playLoopStep env p) = voice p"
    by (cases "task p")
       (auto simp add: playLoopStep_def nextTrack_def scheduleDisconnectLocked_def Let_def
          split: option.splits list.splits prod.splits if_splits)
  moreover have "disconnectTimer (Shutdown p) = disconnectTimer p \<and> voice (Shutdown p) = None"
    by (simp add: Shutdown_def split: option.splits)
  moreover have "\<not> disconnectTimer (snd (Enqueue t p)) \<and> playing (snd (Enqueue t p))"
    by (simp add: Enqueue_def cancelDisconnectTimerLocked_def Let_def)
  ultimately show ?thesis
    using reachable_timer_playing [of p] playLoopStep_timer [of env p] playLoopStep_playing [of env p]
    by (simp add: timerFired_def)
qed

theorem timer_armed_implies_idle_witness:
  "reachable (the idleArmed)
   \<and> disconnectTimer (the idleArmed)
   \<and> \<not> playing (the idleArmed)
   \<and> \<not> disconnectTimer (snd (Enqueue trackB (the idleArmed)))"
  using timer_armed_implies_idle [of "the idleArmed" trackB] idleArmed_reachable
  by (simp add: idleArmed_eq)

text \<open>
  C2 as stated fails in both directions, in reachable states: a connected player that
  was never given a track is not playing and holds a voice connection, yet no timer is
  armed; a player that was given a track without a voice connection ends with the
  timer armed and no voice connection; and \<^verbatim>\<open>Shutdown\<close> of an idle player leaves the
  timer armed.
\<close>

theorem timer_iff_counterexample:
  "reachable (the connectedOnly)
   \<and> playing (the connectedOnly) = False
   \<and> voice (the connectedOnly) = Some ''v''
   \<and> disconnectTimer (the connectedOnly) = False
   \<and> reachable (the idleNoVoice)
   \<and> disconnectTimer (the idleNoVoice) = True
   \<and> voice (the idleNoVoice) = None
   \<and> reachable (the shutDownIdle)
   \<and> disconnectTimer (the shutDownIdle) = True"
  using connectedOnly_reachable idleNoVoice_reachable shutDownIdle_reachable
  by (simp add: connectedOnly_eq idleNoVoice_eq shutDownIdle_eq)

section \<open>The order of play\<close>

lemma Enqueue_snd:
  "snd (Enqueue t p) =
     p\<lparr>queue := queue p @ [t], disconnectTimer := False, playing := True,
       task := (if playing p then task p else AtTop)\<rparr>"
  by (simp add: Enqueue_def cancelDisconnectTimerLocked_def Let_def)



lemma streamTrack_pending:
  assumes "inPipeline (task p)"
  shows "pending (streamTrack env t p) = []
         \<and> (taskOK p \<longrightarrow> taskOK (streamTrack env t p))"
proof -
  from streamTrack_task [OF assms, of env t] assms show ?thesis
    by (cases "task (streamTrack env t p)"; cases "task p")
       (auto simp add: pending_def taskOK_def)
qed








lemma playLoopStep_taskOK: "taskOK p \<Longrightarrow> taskOK (playLoopStep env p)"
proof (cases "inPipeline (task p)")
  case True
  assume "taskOK p"
  with True streamTrack_pending [OF True] show ?thesis
    by (cases "task p") (simp_all add: playLoopStep_def)
next
  case False
  assume "taskOK p"
  with False show ?thesis
    by (cases "task p")
       (auto simp add: playLoopStep_def nextTrack_def scheduleDisconnectLocked_def taskOK_def Let_def
          split: option.splits list.splits prod.splits if_splits)
qed

lemma step_taskOK: "step a p = Some p1 \<Longrightarrow> taskOK p \<Longrightarrow> taskOK p1"
proof (cases a)
  case (ATask env)
  assume "step a p = Some p1" and "taskOK p"
  with ATask playLoopStep_taskOK [of p env] show ?thesis
    by (auto split: if_splits)
next
  case APause
  assume "step a p = Some p1" and "taskOK p"
  with APause show ?thesis
    by (auto simp add: Pause_def Let_def taskOK_def split: if_splits option.splits)
next
  case (AEnqueue t)
  assume "step a p = Some p1" and "taskOK p"
  with AEnqueue show ?thesis
    by (cases "playing p") (auto simp add: Enqueue_snd taskOK_def split: pc.splits)
qed (auto simp add: EnsureConnected_def Skip_def Stop_def ToggleLoop_def Shutdown_def timerFired_def
       taskOK_def Let_def split: option.splits if_splits)

lemma reachable_taskOK: "reachable p \<Longrightarrow> taskOK p"
proof (induction rule: reachable.induct)
  case (reach_init g)
  show ?case by (simp add: NewPlayer_def taskOK_def)
next
  case (reach_step p a p1)
  then show ?case using step_taskOK by blast
qed




section \<open>The cancel function and the pipeline\<close>

text \<open>
  In every reachable state a cancel function is stored exactly while the task is
  between storing it and clearing it: from the entry of \<^verbatim>\<open>streamTrack\<close> to its return.
\<close>

lemma holdsHandle_iff: "holdsHandle c = (inPipeline c \<or> (\<exists>r. c = Returned r))"
  by (cases c) simp_all

lemma playLoopStep_handleOK: "handleOK p \<Longrightarrow> handleOK (playLoopStep env p)"
proof (cases "inPipeline (task p)")
  case True
  assume "handleOK p"
  with True have "cancelPlayback p \<noteq> None"
    by (simp add: handleOK_def holdsHandle_iff)
  moreover from True have "playLoopStep env p = streamTrack env (case task p of
      Streaming t \<Rightarrow> t | Launching t \<Rightarrow> t | Pumping t st \<Rightarrow> t) p"
    by (cases "task p") (simp_all add: playLoopStep_def)
  ultimately show ?thesis
    using streamTrack_task [OF True]
    by (simp add: handleOK_def holdsHandle_iff)
next
  case False
  assume "handleOK p"
  with False show ?thesis
    by (cases "task p")
       (auto simp add: playLoopStep_def nextTrack_def scheduleDisconnectLocked_def handleOK_def
          Let_def split: option.splits list.splits prod.splits if_splits)
qed

lemma step_handleOK: "step a p = Some p1 \<Longrightarrow> taskOK p \<Longrightarrow> handleOK p \<Longrightarrow> handleOK p1"
proof (cases a)
  case (ATask env)
  assume "step a p = Some p1" and "handleOK p"
  with ATask playLoopStep_handleOK [of p env] show ?thesis
    by (auto split: if_splits)
next
  case APause
  assume "step a p = Some p1" and "handleOK p"
  with APause show ?thesis
    by (auto simp add: Pause_def Let_def handleOK_def split: if_splits option.splits)
next
  case (AEnqueue t)
  assume "step a p = Some p1" and "taskOK p" and "handleOK p"
  with AEnqueue show ?thesis
    by (cases "playing p") (auto simp add: Enqueue_snd taskOK_def handleOK_def)
qed (auto simp add: EnsureConnected_def Skip_def Stop_def ToggleLoop_def Shutdown_def timerFired_def
       handleOK_def Let_def split: option.splits if_splits)

lemma reachable_handleOK: "reachable p \<Longrightarrow> handleOK p"
proof (induction rule: reachable.induct)
  case (reach_init g)
  show ?case by (simp add: NewPlayer_def handleOK_def)
next
  case (reach_step p a p1)
  then show ?case using step_handleOK reachable_taskOK by blast
qed

text \<open>
  So \<^verbatim>\<open>Skip\<close>, \<^verbatim>\<open>Stop\<close> and \<^verbatim>\<open>Shutdown\<close> that arrive while the task is inside
  \<^verbatim>\<open>streamTrack\<close> cancel the context that \<^verbatim>\<open>streamTrack\<close> looks at, and leave the task
  where it is.
\<close>

lemma cancel_reaches_pipeline:
  assumes "reachable p" and "inPipeline (task p)"
  shows "ctxErr (snd (Skip p)) \<and> ctxErr (snd (Stop p)) \<and> ctxErr (Shutdown p)
         \<and> task (snd (Skip p)) = task p \<and> task (snd (Stop p)) = task p
         \<and> task (Shutdown p) = task p"
proof -
  from reachable_handleOK [OF assms(1)] assms(2) have "cancelPlayback p \<noteq> None"
    by (cases "task p") (simp_all add: handleOK_def)
  then show ?thesis
    by (auto simp add: Skip_def Stop_def Shutdown_def ctxErr_def)
qed

section \<open>Skip\<close>

text \<open>
  What \<^verbatim>\<open>Skip\<close> does in every state: it returns true exactly when a current track is
  present, and what it does depends on the stored cancel function alone. With none
  stored the whole player state is unchanged; with one stored it sets
  \<^verbatim>\<open>skipRequested\<close>, clears loop and calls the function. Queue, current track, paused,
  playing, pause channel, voice connection, timer and task are never changed, and the
  cancel function stays stored.
\<close>

lemma Skip_effect:
  "fst (Skip p) = (current p \<noteq> None)
   \<and> (cancelPlayback p = None \<longrightarrow> snd (Skip p) = p)
   \<and> (cancelPlayback p \<noteq> None \<longrightarrow>
        snd (Skip p) = p\<lparr>skipRequested := True, loop := False, cancelPlayback := Some Cancelled\<rparr>)
   \<and> queue (snd (Skip p)) = queue p
   \<and> current (snd (Skip p)) = current p
   \<and> paused (snd (Skip p)) = paused p
   \<and> playing (snd (Skip p)) = playing p
   \<and> pauseChan (snd (Skip p)) = pauseChan p
   \<and> voice (snd (Skip p)) = voice p
   \<and> disconnectTimer (snd (Skip p)) = disconnectTimer p
   \<and> task (snd (Skip p)) = task p
   \<and> (cancelPlayback (snd (Skip p)) = None) = (cancelPlayback p = None)"
  by (cases "cancelPlayback p") (simp_all add: Skip_def)

text \<open>
  Wherever a cancel function is stored exactly when a current track is present,
  \<^verbatim>\<open>Skip\<close> does what is asked of it: with no current track it returns false and changes
  nothing; with one it clears loop, calls the cancel function and returns true.
\<close>

lemma Skip_when_handle_matches_current:
  assumes "(current p \<noteq> None) = (cancelPlayback p \<noteq> None)"
  shows "(current p = None \<longrightarrow> Skip p = (False, p))
         \<and> (current p \<noteq> None \<longrightarrow>
              fst (Skip p) \<and> \<not> loop (snd (Skip p)) \<and> ctxErr (snd (Skip p)))"
  using assms by (cases "cancelPlayback p") (auto simp add: Skip_def ctxErr_def)

text \<open>
  C7 at the failing inputs: \<^verbatim>\<open>Skip\<close> is called while a track is current and the playback
  task holds no cancel function. In the first state the task has taken A from the queue
  and is about to announce it: \<^verbatim>\<open>Skip\<close> returns true and changes nothing, and the task
  goes on to announce A and to stream it under a live context. In the second state A
  has just ended with loop on: \<^verbatim>\<open>Skip\<close> returns true and changes nothing, loop stays on,
  and the task takes up A again.
\<close>

theorem Skip_before_handle_stored:
  "reachable (the takenA)
   \<and> current (the takenA) = Some trackA
   \<and> cancelPlayback (the takenA) = None
   \<and> Skip (the takenA) = (True, the takenA)
   \<and> task (playLoopStep (envOf []) (snd (Skip (the takenA)))) = Streaming trackA
   \<and> announced (playLoopStep (envOf []) (snd (Skip (the takenA)))) = [(trackA, False)]
   \<and> cancelPlayback (playLoopStep (envOf []) (snd (Skip (the takenA)))) = Some Live
   \<and> reachable (the betweenTracks)
   \<and> current (the betweenTracks) = Some trackA
   \<and> cancelPlayback (the betweenTracks) = None
   \<and> loop (the betweenTracks)
   \<and> Skip (the betweenTracks) = (True, the betweenTracks)
   \<and> task (playLoopStep (envOf []) (snd (Skip (the betweenTracks)))) = Starting trackA False
   \<and> loop (playLoopStep (envOf []) (snd (Skip (the betweenTracks))))"
  using takenA_reachable betweenTracks_reachable
  by (simp add: takenA_eq betweenTracks_eq Skip_def playLoopStep_def nextTrack_def)

theorem Skip_before_handle_stored_witness:
  "Skip (the takenA) = (True, the takenA)
   \<and> task (playLoopStep (envOf []) (snd (Skip (the takenA)))) = Streaming trackA
   \<and> Skip (the betweenTracks) = (True, the betweenTracks)
   \<and> loop (playLoopStep (envOf []) (snd (Skip (the betweenTracks))))"
  using Skip_before_handle_stored by blast

text \<open>
  After \<^verbatim>\<open>Stop\<close> missed the pipeline (it came before the cancel function was stored),
  no track is current while the pipeline streams: there \<^verbatim>\<open>Skip\<close> returns false and yet
  cancels the pipeline.
\<close>

lemma Skip_after_missed_Stop:
  "reachable (the stoppedEarly)
   \<and> current (the stoppedEarly) = None
   \<and> fst (Skip (the stoppedEarly)) = False
   \<and> cancelPlayback (the stoppedEarly) = Some Live
   \<and> cancelPlayback (snd (Skip (the stoppedEarly))) = Some Cancelled"
  using stoppedEarly_reachable
  by (simp add: stoppedEarly_eq Skip_def)

section \<open>The outcome of the pipeline\<close>

lemma byteBufLen_pos: "0 < byteBufLen"
  by (simp add: byteBufLen_def pcmBufLen_def pcmFrameSize_def pcmChannelCount_def)

subsection \<open>The steps of the loop\<close>

lemma step_LoopTop:
  "task p = Pumping t st \<Longrightarrow> point st = LoopTop \<Longrightarrow>
   playLoopStep env p =
     (if ctxErr p then p\<lparr>task := Returned (Some Canceled)\<rparr>
      else p\<lparr>task := Pumping t (st\<lparr>point := Locking\<rparr>)\<rparr>)"
  by (simp add: playLoopStep_def streamTrack_def streamLoop_def)

lemma step_Locking:
  "task p = Pumping t st \<Longrightarrow> point st = Locking \<Longrightarrow>
   playLoopStep env p =
     (if paused p then p\<lparr>task := Pumping t (st\<lparr>point := PauseSelect\<rparr>)\<rparr>
      else p\<lparr>task := Pumping t (st\<lparr>point := Reading\<rparr>)\<rparr>)"
  by (simp add: playLoopStep_def streamTrack_def streamLoop_def)

lemma step_Streaming:
  "task p = Streaming t \<Longrightarrow>
   playLoopStep env p =
     (case voice p of
        None \<Rightarrow> p\<lparr>task := Returned (Some (Plain ''voice connection not established''))\<rparr>
      | Some vc \<Rightarrow> p\<lparr>task := Launching t\<rparr>)"
  by (simp add: playLoopStep_def streamTrack_def)

text \<open>
  Before the loop, \<^verbatim>\<open>streamTrack\<close> returns the first error it meets, wrapped: of the
  encoder, of the pipe, of the start of the subprocess.
\<close>

lemma setup_failures:
  "task p = Launching t \<Longrightarrow>
   (newEncoderErr env sampleRate pcmChannelCount = Some m \<longrightarrow>
      playLoopStep env p = p\<lparr>task := Returned (Some (Wrapped ''opus encoder: '' m))\<rparr>)
   \<and> (newEncoderErr env sampleRate pcmChannelCount = None \<and> stdoutPipeErr env = Some m \<longrightarrow>
      playLoopStep env p = p\<lparr>task := Returned (Some (Wrapped ''ffmpeg stdout: '' m))\<rparr>)
   \<and> (newEncoderErr env sampleRate pcmChannelCount = None \<and> stdoutPipeErr env = None
      \<and> lookPathErr env = Some m \<longrightarrow>
      playLoopStep env p = p\<lparr>task := Returned (Some (Wrapped ''ffmpeg start: '' m))\<rparr>)
   \<and> (newEncoderErr env sampleRate pcmChannelCount = None \<and> stdoutPipeErr env = None
      \<and> lookPathErr env = None \<and> \<not> ctxErr p \<and> startErr env = Some m \<longrightarrow>
      playLoopStep env p = p\<lparr>task := Returned (Some (Wrapped ''ffmpeg start: '' m))\<rparr>)"
  by (simp add: playLoopStep_def streamTrack_def)

text \<open>
  The \<^verbatim>\<open>select\<close> of the paused pipeline: a value in the pause channel is received unless
  \<^verbatim>\<open>ctx.Done()\<close> is ready and taken; \<^verbatim>\<open>false\<close> sends the pipeline back to the top of the
  loop, \<^verbatim>\<open>true\<close> lets it go on to the read. With an empty channel the pipeline returns if
  the context is cancelled and otherwise goes back to the top after the timeout.
\<close>

lemma step_PauseSelect:
  "task p = Pumping t st \<Longrightarrow> point st = PauseSelect \<Longrightarrow>
   playLoopStep env p =
     (case pauseChan p of
        Some (b # buf) \<Rightarrow>
          if ctxErr p \<and> doneFirst env then p\<lparr>task := Returned (Some Canceled)\<rparr>
          else p\<lparr>pauseChan := Some buf,
                 task := Pumping t (st\<lparr>point := (if b then Reading else LoopTop)\<rparr>)\<rparr>
      | _ \<Rightarrow>
          if ctxErr p then p\<lparr>task := Returned (Some Canceled)\<rparr>
          else p\<lparr>task := Pumping t (st\<lparr>point := LoopTop\<rparr>)\<rparr>)"
  by (simp add: playLoopStep_def streamTrack_def streamLoop_def split: option.splits list.splits)

lemma step_PauseSelect_cancelled:
  "task p = Pumping t st \<Longrightarrow> point st = PauseSelect \<Longrightarrow> ctxErr p \<Longrightarrow>
   doneFirst env \<or> pauseChan p = Some [] \<Longrightarrow>
   playLoopStep env p = p\<lparr>task := Returned (Some Canceled)\<rparr>"
  by (auto simp add: playLoopStep_def streamTrack_def streamLoop_def
      split: option.splits list.splits)

lemma step_Reading:
  "task p = Pumping t st \<Longrightarrow> point st = Reading \<Longrightarrow>
   (if ctxErr p then killedOutput (written env) (reader st) else reader st) = (bs, e) \<Longrightarrow>
   playLoopStep env p =
     (case ReadFull byteBufLen bs e of
        ReadEOF \<Rightarrow> p\<lparr>task := Returned None\<rparr>
      | ReadUnexpectedEOF \<Rightarrow> p\<lparr>task := Returned None\<rparr>
      | ReadFailed m \<Rightarrow> p\<lparr>task := Returned (Some (Wrapped ''pcm read: '' m))\<rparr>
      | ReadOK frame rest \<Rightarrow>
          (case encode env (opusEncoder st) (decodePCM frame) pcmFrameSize opusFrameCapacity of
             Inl m \<Rightarrow> p\<lparr>task := Returned (Some (Wrapped ''opus encode: '' m))\<rparr>
           | Inr pk \<Rightarrow>
               p\<lparr>task := Pumping t (st\<lparr>point := Sending, reader := (rest, e), packet := pk\<rparr>)\<rparr>))"
  by (simp add: playLoopStep_def streamTrack_def streamLoop_def)

lemma step_Sending:
  "task p = Pumping t st \<Longrightarrow> point st = Sending \<Longrightarrow>
   playLoopStep env p =
     (if ctxErr p \<and> (doneFirst env \<or> \<not> sendReady env)
      then p\<lparr>task := Returned (Some Canceled)\<rparr>
      else if sendReady env
           then p\<lparr>task := Pumping t (st\<lparr>point := LoopTop, sent := sent st @ [packet st]\<rparr>)\<rparr>
           else p)"
  by (simp add: playLoopStep_def streamTrack_def streamLoop_def)

lemma step_Launching:
  "task p = Launching t \<Longrightarrow>
   newEncoderErr env sampleRate pcmChannelCount = None \<Longrightarrow> stdoutPipeErr env = None \<Longrightarrow>
   lookPathErr env = None \<Longrightarrow>
   playLoopStep env p =
     (if ctxErr p then p\<lparr>task := Returned (Some (Wrapped ''ffmpeg start: '' Canceled))\<rparr>
      else case startErr env of
             Some m \<Rightarrow> p\<lparr>task := Returned (Some (Wrapped ''ffmpeg start: '' m))\<rparr>
           | None \<Rightarrow>
               p\<lparr>task := Pumping t
                           \<lparr>point = LoopTop,
                            opusEncoder =
                              SetBitrate opusBitrate (NewEncoder sampleRate pcmChannelCount),
                            reader = ffmpeg env (buildFFMpegArgs t),
                            packet = [], sent = []\<rparr>\<rparr>)"
  by (simp add: playLoopStep_def streamTrack_def)

subsection \<open>A pipeline that is left alone\<close>

text \<open>
  With a live context, no pause, a voice connection that takes the packets and an
  encoder that answers, one frame takes four steps: the check of the context, the
  critical section, the read with the encoding, and the send.
\<close>

lemma one_frame:
  assumes "task p = Pumping t st" and "point st = LoopTop" and "\<not> ctxErr p" and "\<not> paused p"
    and "reader st = (bs, e)" and "byteBufLen \<le> length bs" and "sendReady env"
    and "encodes env"
  shows "\<exists>pk. (playLoopStep env ^^ 4) p =
           p\<lparr>task := Pumping t (st\<lparr>point := LoopTop, reader := (drop byteBufLen bs, e),
                                   packet := pk, sent := sent st @ [pk]\<rparr>)\<rparr>"
proof -
  from assms(8) obtain pk where
    pk: "encode env (opusEncoder st) (decodePCM (take byteBufLen bs)) pcmFrameSize
           opusFrameCapacity = Inr pk"
    unfolding encodes_def
    by (metis (no_types, lifting) old.sum.exhaust old.sum.simps(5))
  let ?p1 = "p\<lparr>task := Pumping t (st\<lparr>point := Locking\<rparr>)\<rparr>"
  let ?p2 = "p\<lparr>task := Pumping t (st\<lparr>point := Reading\<rparr>)\<rparr>"
  let ?p3 = "p\<lparr>task := Pumping t (st\<lparr>point := Sending, reader := (drop byteBufLen bs, e),
                                      packet := pk\<rparr>)\<rparr>"
  let ?p4 = "p\<lparr>task := Pumping t (st\<lparr>point := LoopTop, reader := (drop byteBufLen bs, e),
                                      packet := pk, sent := sent st @ [pk]\<rparr>)\<rparr>"
  from assms have s1: "playLoopStep env p = ?p1"
    by (simp add: step_LoopTop)
  from assms have s2: "playLoopStep env ?p1 = ?p2"
    by (simp add: step_Locking [where st = "st\<lparr>point := Locking\<rparr>"])
  from assms pk have s3: "playLoopStep env ?p2 = ?p3"
    by (simp add: step_Reading [where st = "st\<lparr>point := Reading\<rparr>" and bs = bs and e = e]
        ctxErr_def ReadFull_def)
  from assms have s4: "playLoopStep env ?p3 = ?p4"
    by (simp add: step_Sending [where st = "st\<lparr>point := Sending, reader := (drop byteBufLen bs, e),
          packet := pk\<rparr>"] ctxErr_def)
  have "(playLoopStep env ^^ 4) p
      = playLoopStep env (playLoopStep env (playLoopStep env (playLoopStep env p)))"
    by (simp add: numeral_eq_Suc funpow_swap1)
  with s1 s2 s3 s4 show ?thesis
    by (intro exI [of _ pk]) simp
qed

text \<open>
  So it sends one packet for each whole frame of the output and then, when the output
  ends, also inside a frame, returns \<^verbatim>\<open>nil\<close>.
\<close>

lemma frames_sent:
  assumes "sendReady env" and "encodes env"
  shows "task p = Pumping t st \<Longrightarrow> point st = LoopTop \<Longrightarrow> \<not> ctxErr p \<Longrightarrow> \<not> paused p \<Longrightarrow>
         reader st = (bs, e) \<Longrightarrow> n * byteBufLen \<le> length bs \<Longrightarrow>
         \<exists>st1. (playLoopStep env ^^ (4 * n)) p = p\<lparr>task := Pumping t st1\<rparr>
               \<and> point st1 = LoopTop
               \<and> reader st1 = (drop (n * byteBufLen) bs, e)
               \<and> length (sent st1) = length (sent st) + n
               \<and> opusEncoder st1 = opusEncoder st"
proof (induction n arbitrary: p st bs)
  case 0
  then have "(playLoopStep env ^^ (4 * 0)) p = p\<lparr>task := Pumping t st\<rparr>"
    by simp
  with 0 show ?case
    by (intro exI [of _ st]) simp
next
  case (Suc n)
  from Suc.prems(6) have long: "byteBufLen \<le> length bs" and rest: "n * byteBufLen \<le> length bs - byteBufLen"
    by simp_all
  from one_frame [OF Suc.prems(1) Suc.prems(2) Suc.prems(3) Suc.prems(4) Suc.prems(5) long
      assms(1) assms(2)]
  obtain pk where
    f: "(playLoopStep env ^^ 4) p =
          p\<lparr>task := Pumping t (st\<lparr>point := LoopTop, reader := (drop byteBufLen bs, e),
                                  packet := pk, sent := sent st @ [pk]\<rparr>)\<rparr>"
    by blast
  let ?st = "st\<lparr>point := LoopTop, reader := (drop byteBufLen bs, e),
                packet := pk, sent := sent st @ [pk]\<rparr>"
  let ?q = "p\<lparr>task := Pumping t ?st\<rparr>"
  from Suc.prems have q: "task ?q = Pumping t ?st" "point ?st = LoopTop" "\<not> ctxErr ?q"
    "\<not> paused ?q" "reader ?st = (drop byteBufLen bs, e)"
    by (simp_all add: ctxErr_def)
  from rest have r: "n * byteBufLen \<le> length (drop byteBufLen bs)"
    by simp
  from Suc.IH [OF q r] obtain st1 where
    i: "(playLoopStep env ^^ (4 * n)) ?q = ?q\<lparr>task := Pumping t st1\<rparr>" "point st1 = LoopTop"
      "reader st1 = (drop (n * byteBufLen) (drop byteBufLen bs), e)"
      "length (sent st1) = length (sent ?st) + n" "opusEncoder st1 = opusEncoder ?st"
    by blast
  have "4 * Suc n = 4 * n + 4"
    by simp
  then have "(playLoopStep env ^^ (4 * Suc n)) p
      = (playLoopStep env ^^ (4 * n)) ((playLoopStep env ^^ 4) p)"
    by (simp only: funpow_add o_apply)
  with f i have "(playLoopStep env ^^ (4 * Suc n)) p = p\<lparr>task := Pumping t st1\<rparr>"
    by simp
  moreover from i have "reader st1 = (drop (Suc n * byteBufLen) bs, e)"
    by (simp add: add.commute)
  moreover from i have "length (sent st1) = length (sent st) + Suc n"
    by simp
  moreover from i have "opusEncoder st1 = opusEncoder st"
    by simp
  ultimately show ?case
    using i(2) by blast
qed

lemma runs_to_the_end:
  assumes "sendReady env" and "encodes env"
  shows "task p = Pumping t st \<Longrightarrow> point st = LoopTop \<Longrightarrow> \<not> ctxErr p \<Longrightarrow> \<not> paused p \<Longrightarrow>
         reader st = (bs, EndEOF) \<Longrightarrow> n = length bs div byteBufLen \<Longrightarrow>
         (playLoopStep env ^^ (4 * n + 3)) p = p\<lparr>task := Returned None\<rparr>"
proof (induction n arbitrary: p st bs)
  case 0
  then have short: "length bs < byteBufLen"
    using byteBufLen_pos by (simp add: div_eq_0_iff)
  let ?p1 = "p\<lparr>task := Pumping t (st\<lparr>point := Locking\<rparr>)\<rparr>"
  let ?p2 = "p\<lparr>task := Pumping t (st\<lparr>point := Reading\<rparr>)\<rparr>"
  from 0 have s1: "playLoopStep env p = ?p1"
    by (simp add: step_LoopTop)
  from 0 have s2: "playLoopStep env ?p1 = ?p2"
    by (simp add: step_Locking [where st = "st\<lparr>point := Locking\<rparr>"])
  from 0 short have s3: "playLoopStep env ?p2 = p\<lparr>task := Returned None\<rparr>"
    by (simp add: step_Reading [where st = "st\<lparr>point := Reading\<rparr>" and bs = bs and e = EndEOF]
        ctxErr_def ReadFull_def)
  have "(playLoopStep env ^^ 3) p = playLoopStep env (playLoopStep env (playLoopStep env p))"
    by (simp add: numeral_eq_Suc funpow_swap1)
  with s1 s2 s3 show ?case
    by simp
next
  case (Suc n)
  from Suc.prems(6) have long: "byteBufLen \<le> length bs"
    by (metis div_less not_le old.nat.distinct(1))
  from one_frame [OF Suc.prems(1) Suc.prems(2) Suc.prems(3) Suc.prems(4) Suc.prems(5) long
      assms(1) assms(2)]
  obtain pk where
    f: "(playLoopStep env ^^ 4) p =
          p\<lparr>task := Pumping t (st\<lparr>point := LoopTop, reader := (drop byteBufLen bs, EndEOF),
                                  packet := pk, sent := sent st @ [pk]\<rparr>)\<rparr>"
    by blast
  let ?st = "st\<lparr>point := LoopTop, reader := (drop byteBufLen bs, EndEOF),
                packet := pk, sent := sent st @ [pk]\<rparr>"
  let ?q = "p\<lparr>task := Pumping t ?st\<rparr>"
  from long Suc.prems(6) byteBufLen_pos have n: "n = length (drop byteBufLen bs) div byteBufLen"
    by (simp add: le_div_geq)
  from Suc.prems have q: "task ?q = Pumping t ?st" "point ?st = LoopTop" "\<not> ctxErr ?q"
    "\<not> paused ?q" "reader ?st = (drop byteBufLen bs, EndEOF)"
    by (simp_all add: ctxErr_def)
  from Suc.IH [OF q n] have "(playLoopStep env ^^ (4 * n + 3)) ?q = ?q\<lparr>task := Returned None\<rparr>" .
  moreover have "4 * Suc n + 3 = (4 * n + 3) + 4"
    by simp
  then have "(playLoopStep env ^^ (4 * Suc n + 3)) p
      = (playLoopStep env ^^ (4 * n + 3)) ((playLoopStep env ^^ 4) p)"
    by (simp only: funpow_add o_apply)
  ultimately show ?case
    using f by simp
qed

subsection \<open>A pipeline whose context is cancelled\<close>

text \<open>
  Every step of a cancelled pipeline brings it nearer to its return, so it returns
  within five steps, whatever its surroundings do.
\<close>

lemma pump_Pumping:
  "task p = Pumping t st \<Longrightarrow> pump env p = playLoopStep env p"
  by (simp add: pump_def)

lemma pump_nearer:
  assumes "ctxErr p" and "inPipeline (task p)"
  shows "stepsLeft (task (pump env p)) < stepsLeft (task p) \<and> ctxErr (pump env p)
         \<and> (inPipeline (task (pump env p)) \<or> (\<exists>r. task (pump env p) = Returned r))"
proof (cases "task p")
  case (Streaming t)
  with assms show ?thesis
    by (simp add: pump_def playLoopStep_def streamTrack_def ctxErr_def split: option.splits)
next
  case (Launching t)
  with assms show ?thesis
    by (simp add: pump_def playLoopStep_def streamTrack_def ctxErr_def split: option.splits)
next
  case (Pumping t st)
  show ?thesis
  proof (cases "point st")
    case LoopTop
    with Pumping assms show ?thesis
      by (simp add: pump_def step_LoopTop ctxErr_def)
  next
    case Locking
    with Pumping assms show ?thesis
      by (simp add: pump_def step_Locking ctxErr_def)
  next
    case PauseSelect
    with Pumping assms show ?thesis
      by (simp add: pump_def playLoopStep_def streamTrack_def streamLoop_def ctxErr_def
          split: option.splits list.splits)
  next
    case Reading
    obtain bs e where k: "killedOutput (written env) (reader st) = (bs, e)"
      by (cases "killedOutput (written env) (reader st)")
    with Pumping Reading assms
      step_Reading [where p = p and t = t and st = st and env = env and bs = bs and e = e]
    show ?thesis
      by (simp add: pump_def ctxErr_def split: read_result.splits sum.splits)
  next
    case Sending
    with Pumping assms show ?thesis
      by (simp add: pump_def step_Sending ctxErr_def)
  qed
qed (use assms in simp_all)

lemma pumps_Returned: "task p = Returned r \<Longrightarrow> task (pumps envs p) = Returned r"
  by (induction envs arbitrary: p) (simp_all add: pump_def)

lemma pumps_return:
  "ctxErr p \<Longrightarrow> inPipeline (task p) \<Longrightarrow> stepsLeft (task p) \<le> length envs \<Longrightarrow>
   \<exists>r. task (pumps envs p) = Returned r"
proof (induction envs arbitrary: p)
  case Nil
  then show ?case
    by (cases "task p") (simp_all split: loc.splits)
next
  case (Cons env envs)
  from pump_nearer [OF Cons.prems(1) Cons.prems(2), of env]
  have d: "stepsLeft (task (pump env p)) < stepsLeft (task p)" and c: "ctxErr (pump env p)"
    and t: "inPipeline (task (pump env p)) \<or> (\<exists>r. task (pump env p) = Returned r)"
    by simp_all
  from t show ?case
  proof
    assume i: "inPipeline (task (pump env p))"
    from d Cons.prems(3) have "stepsLeft (task (pump env p)) \<le> length envs"
      by simp
    from Cons.IH [OF c i this] show ?thesis
      by simp
  next
    assume "\<exists>r. task (pump env p) = Returned r"
    then show ?thesis
      using pumps_Returned by auto
  qed
qed

lemma stepsLeft_bound: "stepsLeft c \<le> 5"
  by (cases c) (simp_all split: loc.splits)

subsection \<open>What the playback task does with the outcome\<close>

lemma playLoopStep_Returned:
  "playLoopStep env (p\<lparr>task := Returned r\<rparr>) =
     (if errorsIsCanceled r then p\<lparr>cancelPlayback := None, pauseChan := None, task := AtTop\<rparr>
      else case r of
             None \<Rightarrow> p\<lparr>cancelPlayback := None, pauseChan := None, task := AtTop\<rparr>
           | Some e \<Rightarrow>
               p\<lparr>cancelPlayback := None, pauseChan := None,
                 logged := logged p @ [''playback error: '' @ errorText e], task := AtTop\<rparr>)"
  by (cases r) (simp_all add: playLoopStep_def errorsIsCanceled_def)

lemma playLoopStep_AtTop:
  "task p = AtTop \<Longrightarrow>
   task (playLoopStep env p) =
     (case fst (fst (nextTrack p)) of None \<Rightarrow> GoIdle | Some t \<Rightarrow> Starting t False)"
  by (simp add: playLoopStep_def nextTrack_def Let_def split: option.splits list.splits)

lemma nextTrack_track_frame:
  "fst (fst (nextTrack (p\<lparr>cancelPlayback := x, pauseChan := y, task := z\<rparr>))) = fst (fst (nextTrack p))
   \<and> fst (fst (nextTrack (p\<lparr>cancelPlayback := x, pauseChan := y, logged := l, task := z\<rparr>)))
       = fst (fst (nextTrack p))"
  by (simp add: nextTrack_def Let_def split: option.splits list.splits)

text \<open>
  C8, as the code has it. End of stream: a read that finds the output of the subprocess
  ended, also inside a frame, makes \<^verbatim>\<open>streamTrack\<close> return \<^verbatim>\<open>nil\<close>, and a pipeline that is
  left alone gets there after one packet for each whole frame. Cancellation: \<^verbatim>\<open>Skip\<close>
  and \<^verbatim>\<open>Stop\<close> that arrive while the task is inside \<^verbatim>\<open>streamTrack\<close> cancel the context
  it looks at, and from then on it returns within five of its steps. It returns
  \<^verbatim>\<open>context.Canceled\<close> where it looks at the context: at the top of the loop, in the
  \<^verbatim>\<open>select\<close> of the paused state and in the \<^verbatim>\<open>select\<close> of the send (unless the other
  case is taken first), and wrapped behind \<^verbatim>\<open>ffmpeg start:\<close> when the subprocess was
  not started yet. In the read it does not look at the context: the kill of the
  subprocess ends its output and \<^verbatim>\<open>streamTrack\<close> returns \<^verbatim>\<open>nil\<close>. Failure: a read error
  and an encoder error come back wrapped. The playback task takes every outcome the
  same way, except that it logs an error that is not, and does not wrap,
  \<^verbatim>\<open>context.Canceled\<close>: it clears the cancel function and the pause channel and goes
  back to the top of its loop, where what it takes up next is what \<^verbatim>\<open>nextTrack\<close> yields.
\<close>

theorem pipeline_outcome_handling:
  "(task p = Pumping t st \<and> point st = Reading \<and> \<not> ctxErr p \<and> reader st = (bs, EndEOF)
      \<and> length bs < byteBufLen \<longrightarrow>
      playLoopStep env p = p\<lparr>task := Returned None\<rparr>)
   \<and> (task p = Pumping t st \<and> point st = LoopTop \<and> \<not> ctxErr p \<and> \<not> paused p
        \<and> reader st = (bs, EndEOF) \<and> sendReady env \<and> encodes env \<longrightarrow>
        (playLoopStep env ^^ (4 * (length bs div byteBufLen) + 3)) p = p\<lparr>task := Returned None\<rparr>)
   \<and> (reachable p \<and> inPipeline (task p) \<longrightarrow>
        ctxErr (snd (Skip p)) \<and> ctxErr (snd (Stop p))
        \<and> task (snd (Skip p)) = task p \<and> task (snd (Stop p)) = task p)
   \<and> (ctxErr p \<and> inPipeline (task p) \<and> 5 \<le> length envs \<longrightarrow>
        (\<exists>r. task (pumps envs p) = Returned r))
   \<and> (task p = Pumping t st \<and> point st = LoopTop \<and> ctxErr p \<longrightarrow>
        playLoopStep env p = p\<lparr>task := Returned (Some Canceled)\<rparr>)
   \<and> (task p = Pumping t st \<and> point st = PauseSelect \<and> ctxErr p
        \<and> (doneFirst env \<or> pauseChan p = Some []) \<longrightarrow>
        playLoopStep env p = p\<lparr>task := Returned (Some Canceled)\<rparr>)
   \<and> (task p = Pumping t st \<and> point st = Sending \<and> ctxErr p
        \<and> (doneFirst env \<or> \<not> sendReady env) \<longrightarrow>
        playLoopStep env p = p\<lparr>task := Returned (Some Canceled)\<rparr>)
   \<and> (task p = Launching t \<and> ctxErr p \<and> newEncoderErr env sampleRate pcmChannelCount = None
        \<and> stdoutPipeErr env = None \<and> lookPathErr env = None \<longrightarrow>
        playLoopStep env p = p\<lparr>task := Returned (Some (Wrapped ''ffmpeg start: '' Canceled))\<rparr>)
   \<and> (task p = Pumping t st \<and> point st = Reading \<and> ctxErr p \<and> reader st = (bs, e)
        \<and> written env < length bs \<and> written env < byteBufLen \<longrightarrow>
        playLoopStep env p = p\<lparr>task := Returned None\<rparr>)
   \<and> (task p = Pumping t st \<and> point st = Reading \<and> \<not> ctxErr p \<and> reader st = (bs, EndErr m)
        \<and> length bs < byteBufLen \<longrightarrow>
        playLoopStep env p = p\<lparr>task := Returned (Some (Wrapped ''pcm read: '' m))\<rparr>)
   \<and> (task p = Pumping t st \<and> point st = Reading \<and> \<not> ctxErr p \<and> reader st = (bs, e)
        \<and> byteBufLen \<le> length bs
        \<and> encode env (opusEncoder st) (decodePCM (take byteBufLen bs)) pcmFrameSize
            opusFrameCapacity = Inl m \<longrightarrow>
        playLoopStep env p = p\<lparr>task := Returned (Some (Wrapped ''opus encode: '' m))\<rparr>)
   \<and> playLoopStep env (p\<lparr>task := Returned None\<rparr>)
       = p\<lparr>cancelPlayback := None, pauseChan := None, task := AtTop\<rparr>
   \<and> playLoopStep env (p\<lparr>task := Returned (Some Canceled)\<rparr>)
       = p\<lparr>cancelPlayback := None, pauseChan := None, task := AtTop\<rparr>
   \<and> (isCanceled m \<longrightarrow>
        playLoopStep env (p\<lparr>task := Returned (Some m)\<rparr>)
          = p\<lparr>cancelPlayback := None, pauseChan := None, task := AtTop\<rparr>)
   \<and> (\<not> isCanceled m \<longrightarrow>
        playLoopStep env (p\<lparr>task := Returned (Some m)\<rparr>)
          = p\<lparr>cancelPlayback := None, pauseChan := None,
              logged := logged p @ [''playback error: '' @ errorText m], task := AtTop\<rparr>)
   \<and> task (playLoopStep env2 (playLoopStep env (p\<lparr>task := Returned r\<rparr>)))
       = (case fst (fst (nextTrack p)) of None \<Rightarrow> GoIdle | Some t \<Rightarrow> Starting t False)
   \<and> (task p = Pumping t st \<and> point st = LoopTop \<and> \<not> ctxErr p \<and> \<not> paused p
        \<and> reader st = (bs, e) \<and> sendReady env \<and> encodes env \<and> n * byteBufLen \<le> length bs \<longrightarrow>
        (\<exists>st1. (playLoopStep env ^^ (4 * n)) p = p\<lparr>task := Pumping t st1\<rparr>
              \<and> point st1 = LoopTop
              \<and> reader st1 = (drop (n * byteBufLen) bs, e)
              \<and> length (sent st1) = length (sent st) + n))"
proof -
  have c1: "task p = Pumping t st \<and> point st = Reading \<and> \<not> ctxErr p \<and> reader st = (bs, EndEOF)
      \<and> length bs < byteBufLen \<longrightarrow>
      playLoopStep env p = p\<lparr>task := Returned None\<rparr>"
    using step_Reading [where p = p and t = t and st = st and env = env and bs = bs and e = EndEOF]
    by (simp add: ReadFull_def)
  have c2: "task p = Pumping t st \<and> point st = LoopTop \<and> \<not> ctxErr p \<and> \<not> paused p
        \<and> reader st = (bs, EndEOF) \<and> sendReady env \<and> encodes env \<longrightarrow>
        (playLoopStep env ^^ (4 * (length bs div byteBufLen) + 3)) p = p\<lparr>task := Returned None\<rparr>"
    using runs_to_the_end [where env = env and p = p and t = t and st = st and bs = bs]
    by blast
  have c3: "reachable p \<and> inPipeline (task p) \<longrightarrow>
        ctxErr (snd (Skip p)) \<and> ctxErr (snd (Stop p))
        \<and> task (snd (Skip p)) = task p \<and> task (snd (Stop p)) = task p"
    using cancel_reaches_pipeline [of p] by blast
  have c4: "ctxErr p \<and> inPipeline (task p) \<and> 5 \<le> length envs \<longrightarrow>
        (\<exists>r. task (pumps envs p) = Returned r)"
    using pumps_return [of p envs] stepsLeft_bound [of "task p"] by auto
  have c5: "task p = Pumping t st \<and> point st = LoopTop \<and> ctxErr p \<longrightarrow>
        playLoopStep env p = p\<lparr>task := Returned (Some Canceled)\<rparr>"
    by (simp add: step_LoopTop)
  have c6: "task p = Pumping t st \<and> point st = PauseSelect \<and> ctxErr p
        \<and> (doneFirst env \<or> pauseChan p = Some []) \<longrightarrow>
        playLoopStep env p = p\<lparr>task := Returned (Some Canceled)\<rparr>"
    using step_PauseSelect_cancelled [of p t st env] by blast
  have c7: "task p = Pumping t st \<and> point st = Sending \<and> ctxErr p
        \<and> (doneFirst env \<or> \<not> sendReady env) \<longrightarrow>
        playLoopStep env p = p\<lparr>task := Returned (Some Canceled)\<rparr>"
    by (simp add: step_Sending)
  have c8: "task p = Launching t \<and> ctxErr p \<and> newEncoderErr env sampleRate pcmChannelCount = None
        \<and> stdoutPipeErr env = None \<and> lookPathErr env = None \<longrightarrow>
        playLoopStep env p = p\<lparr>task := Returned (Some (Wrapped ''ffmpeg start: '' Canceled))\<rparr>"
    by (simp add: step_Launching)
  have c9: "task p = Pumping t st \<and> point st = Reading \<and> ctxErr p \<and> reader st = (bs, e)
        \<and> written env < length bs \<and> written env < byteBufLen \<longrightarrow>
        playLoopStep env p = p\<lparr>task := Returned None\<rparr>"
    using step_Reading [where p = p and t = t and st = st and env = env
        and bs = "take (written env) bs" and e = EndEOF]
    by (simp add: killedOutput_def ReadFull_def)
  have c10: "task p = Pumping t st \<and> point st = Reading \<and> \<not> ctxErr p \<and> reader st = (bs, EndErr m)
        \<and> length bs < byteBufLen \<longrightarrow>
        playLoopStep env p = p\<lparr>task := Returned (Some (Wrapped ''pcm read: '' m))\<rparr>"
    using step_Reading [where p = p and t = t and st = st and env = env and bs = bs
        and e = "EndErr m"]
    by (simp add: ReadFull_def)
  have c11: "task p = Pumping t st \<and> point st = Reading \<and> \<not> ctxErr p \<and> reader st = (bs, e)
        \<and> byteBufLen \<le> length bs
        \<and> encode env (opusEncoder st) (decodePCM (take byteBufLen bs)) pcmFrameSize
            opusFrameCapacity = Inl m \<longrightarrow>
        playLoopStep env p = p\<lparr>task := Returned (Some (Wrapped ''opus encode: '' m))\<rparr>"
    using step_Reading [where p = p and t = t and st = st and env = env and bs = bs and e = e]
    by (simp add: ReadFull_def)
  have c12: "playLoopStep env (p\<lparr>task := Returned None\<rparr>)
       = p\<lparr>cancelPlayback := None, pauseChan := None, task := AtTop\<rparr>"
    "playLoopStep env (p\<lparr>task := Returned (Some Canceled)\<rparr>)
       = p\<lparr>cancelPlayback := None, pauseChan := None, task := AtTop\<rparr>"
    "isCanceled m \<longrightarrow>
        playLoopStep env (p\<lparr>task := Returned (Some m)\<rparr>)
          = p\<lparr>cancelPlayback := None, pauseChan := None, task := AtTop\<rparr>"
    "\<not> isCanceled m \<longrightarrow>
        playLoopStep env (p\<lparr>task := Returned (Some m)\<rparr>)
          = p\<lparr>cancelPlayback := None, pauseChan := None,
              logged := logged p @ [''playback error: '' @ errorText m], task := AtTop\<rparr>"
    by (simp_all add: playLoopStep_Returned errorsIsCanceled_def)
  have c13: "task (playLoopStep env2 (playLoopStep env (p\<lparr>task := Returned r\<rparr>)))
       = (case fst (fst (nextTrack p)) of None \<Rightarrow> GoIdle | Some t \<Rightarrow> Starting t False)"
    by (cases r) (simp_all add: playLoopStep_Returned playLoopStep_AtTop nextTrack_track_frame)
  have c14: "task p = Pumping t st \<and> point st = LoopTop \<and> \<not> ctxErr p \<and> \<not> paused p
        \<and> reader st = (bs, e) \<and> sendReady env \<and> encodes env \<and> n * byteBufLen \<le> length bs \<longrightarrow>
        (\<exists>st1. (playLoopStep env ^^ (4 * n)) p = p\<lparr>task := Pumping t st1\<rparr>
              \<and> point st1 = LoopTop
              \<and> reader st1 = (drop (n * byteBufLen) bs, e)
              \<and> length (sent st1) = length (sent st) + n)"
    using frames_sent [where env = env and p = p and t = t and st = st and bs = bs and e = e
        and n = n]
    by blast
  from c1 c2 c3 c4 c5 c6 c7 c8 c9 c10 c11 c12 c13 c14 show ?thesis
    by blast
qed

text \<open>
  The pipeline that is about to read the one frame of A. Left alone it reads and sends
  the frame and returns \<^verbatim>\<open>nil\<close> after seven steps. Skipped or stopped at the top of its
  loop it returns \<^verbatim>\<open>context.Canceled\<close>. A read error is logged, a cancellation is not,
  and after the error the task takes up B.
\<close>

theorem pipeline_outcome_handling_witness:
  "(playLoopStep (envOf (replicate 3840 0)) ^^ 7)
      ((the readingA)\<lparr>task := Pumping trackA
         \<lparr>point = LoopTop,
          opusEncoder = \<lparr>encSampleRate = 48000, encChannels = 2, encBitrate = Some 128000\<rparr>,
          reader = (replicate 3840 0, EndEOF), packet = [], sent = []\<rparr>\<rparr>)
     = (the readingA)\<lparr>task := Returned None\<rparr>
   \<and> ctxErr (snd (Skip (the readingA)))
   \<and> ctxErr (snd (Stop (the readingA)))
   \<and> task (playLoopStep (envOf [])
        ((snd (Skip (the readingA)))\<lparr>task := Pumping trackA
           \<lparr>point = LoopTop,
            opusEncoder = \<lparr>encSampleRate = 48000, encChannels = 2, encBitrate = Some 128000\<rparr>,
            reader = (replicate 3840 0, EndEOF), packet = [], sent = []\<rparr>\<rparr>))
       = Returned (Some Canceled)
   \<and> task (playLoopStep (envOf [])
        ((the readingA)\<lparr>task := Pumping trackA
           \<lparr>point = Reading,
            opusEncoder = \<lparr>encSampleRate = 48000, encChannels = 2, encBitrate = Some 128000\<rparr>,
            reader = (replicate 20 0, EndErr (Plain ''closed'')), packet = [], sent = []\<rparr>\<rparr>))
       = Returned (Some (Wrapped ''pcm read: '' (Plain ''closed'')))
   \<and> task (playLoopStep (envOf []) (playLoopStep (envOf [])
         ((the queuedAB)\<lparr>task := Returned (Some (Wrapped ''pcm read: '' (Plain ''closed'')))\<rparr>)))
       = Starting trackB False
   \<and> logged (playLoopStep (envOf [])
         ((the queuedAB)\<lparr>task := Returned (Some (Wrapped ''pcm read: '' (Plain ''closed'')))\<rparr>))
       = [''playback error: pcm read: closed'']
   \<and> logged (playLoopStep (envOf [])
         ((the queuedAB)\<lparr>task := Returned (Some (Wrapped ''ffmpeg start: '' Canceled))\<rparr>))
       = []"
proof -
  let ?enc = "\<lparr>encSampleRate = 48000, encChannels = 2, encBitrate = Some 128000\<rparr>"
  let ?top = "\<lparr>point = LoopTop, opusEncoder = ?enc,
               reader = (replicate 3840 (0::8 word), EndEOF), packet = [], sent = []\<rparr>"
  let ?bad = "\<lparr>point = Reading, opusEncoder = ?enc,
               reader = (replicate 20 (0::8 word), EndErr (Plain ''closed'')), packet = [], sent = []\<rparr>"
  let ?r = "the readingA"
  let ?q = "the queuedAB"
  let ?e = "Wrapped ''pcm read: '' (Plain ''closed'')"
  let ?c = "Wrapped ''ffmpeg start: '' Canceled"
  let ?env = "envOf (replicate 3840 0)"
  note k1 = pipeline_outcome_handling [THEN conjunct2]
  note k2 = k1 [THEN conjunct2]
  note k5 = k2 [THEN conjunct2, THEN conjunct2, THEN conjunct2]
  note k10 = k5 [THEN conjunct2, THEN conjunct2, THEN conjunct2, THEN conjunct2, THEN conjunct2]
  note k13 = k10 [THEN conjunct2, THEN conjunct2, THEN conjunct2]
  note k14 = k13 [THEN conjunct2]
  note k15 = k14 [THEN conjunct2]
  have env: "sendReady ?env" "encodes ?env"
    by (simp_all add: envOf_def encodes_def)
  have len: "length (replicate 3840 (0::8 word)) div byteBufLen = 1"
    "length (replicate 20 (0::8 word)) < byteBufLen"
    by (simp_all add: byteBufLen_def pcmBufLen_def pcmFrameSize_def pcmChannelCount_def)
  have r: "reachable ?r" "inPipeline (task ?r)" "\<not> ctxErr ?r" "\<not> paused ?r"
    using readingA_reachable by (simp_all add: readingA_eq ctxErr_def)
  have er: "\<not> isCanceled ?e" "isCanceled ?c"
    by simp_all
  have "(playLoopStep ?env ^^ (4 * (length (replicate 3840 (0::8 word)) div byteBufLen) + 3))
           (?r\<lparr>task := Pumping trackA ?top\<rparr>)
      = (?r\<lparr>task := Pumping trackA ?top\<rparr>)\<lparr>task := Returned None\<rparr>"
    using pipeline_outcome_handling [where p = "?r\<lparr>task := Pumping trackA ?top\<rparr>"
        and t = trackA and st = ?top and bs = "replicate 3840 0" and env = ?env] env r
    by (simp add: ctxErr_def)
  with len have w1: "(playLoopStep ?env ^^ 7) (?r\<lparr>task := Pumping trackA ?top\<rparr>)
      = ?r\<lparr>task := Returned None\<rparr>"
    by simp
  have "reachable ?r \<and> inPipeline (task ?r) \<longrightarrow>
        ctxErr (snd (Skip ?r)) \<and> ctxErr (snd (Stop ?r))
        \<and> task (snd (Skip ?r)) = task ?r \<and> task (snd (Stop ?r)) = task ?r"
    by (rule k2 [THEN conjunct1])
  with r have w2: "ctxErr (snd (Skip ?r))" "ctxErr (snd (Stop ?r))"
    by blast+
  have "playLoopStep (envOf []) ((snd (Skip ?r))\<lparr>task := Pumping trackA ?top\<rparr>)
      = ((snd (Skip ?r))\<lparr>task := Pumping trackA ?top\<rparr>)\<lparr>task := Returned (Some Canceled)\<rparr>"
    using pipeline_outcome_handling [where p = "(snd (Skip ?r))\<lparr>task := Pumping trackA ?top\<rparr>"
        and t = trackA and st = ?top and env = "envOf []"] w2
    by (simp add: ctxErr_def)
  then have w3: "task (playLoopStep (envOf []) ((snd (Skip ?r))\<lparr>task := Pumping trackA ?top\<rparr>))
      = Returned (Some Canceled)"
    by simp
  have "playLoopStep (envOf []) (?r\<lparr>task := Pumping trackA ?bad\<rparr>)
      = (?r\<lparr>task := Pumping trackA ?bad\<rparr>)\<lparr>task := Returned (Some ?e)\<rparr>"
    using pipeline_outcome_handling [where p = "?r\<lparr>task := Pumping trackA ?bad\<rparr>"
        and t = trackA and st = ?bad and env = "envOf []" and bs = "replicate 20 0"
        and m = "Plain ''closed''"] r len
    by (simp add: ctxErr_def)
  then have w4: "task (playLoopStep (envOf []) (?r\<lparr>task := Pumping trackA ?bad\<rparr>))
      = Returned (Some ?e)"
    by simp
  have c5: "task (playLoopStep (envOf []) (playLoopStep (envOf [])
         (?q\<lparr>task := Returned (Some ?e)\<rparr>)))
       = (case fst (fst (nextTrack ?q)) of None \<Rightarrow> GoIdle | Some t \<Rightarrow> Starting t False)"
    by (rule k15 [THEN conjunct1])
  have "\<not> isCanceled ?e \<longrightarrow>
       playLoopStep (envOf []) (?q\<lparr>task := Returned (Some ?e)\<rparr>)
       = ?q\<lparr>cancelPlayback := None, pauseChan := None,
           logged := logged ?q @ [''playback error: '' @ errorText ?e], task := AtTop\<rparr>"
    by (rule k14 [THEN conjunct1])
  with er have c6: "playLoopStep (envOf []) (?q\<lparr>task := Returned (Some ?e)\<rparr>)
       = ?q\<lparr>cancelPlayback := None, pauseChan := None,
           logged := logged ?q @ [''playback error: '' @ errorText ?e], task := AtTop\<rparr>"
    by blast
  have "isCanceled ?c \<longrightarrow>
       playLoopStep (envOf []) (?q\<lparr>task := Returned (Some ?c)\<rparr>)
       = ?q\<lparr>cancelPlayback := None, pauseChan := None, task := AtTop\<rparr>"
    by (rule k13 [THEN conjunct1])
  with er have c7: "playLoopStep (envOf []) (?q\<lparr>task := Returned (Some ?c)\<rparr>)
       = ?q\<lparr>cancelPlayback := None, pauseChan := None, task := AtTop\<rparr>"
    by blast
  from c5 have w5: "task (playLoopStep (envOf []) (playLoopStep (envOf [])
         (?q\<lparr>task := Returned (Some ?e)\<rparr>))) = Starting trackB False"
    by (simp add: queuedAB_eq nextTrack_def Let_def)
  from c6 have w6: "logged (playLoopStep (envOf []) (?q\<lparr>task := Returned (Some ?e)\<rparr>))
       = [''playback error: pcm read: closed'']"
    by (simp add: queuedAB_eq)
  from c7 have w7: "logged (playLoopStep (envOf []) (?q\<lparr>task := Returned (Some ?c)\<rparr>)) = []"
    by (simp add: queuedAB_eq)
  from w1 w2 w3 w4 w5 w6 w7 show ?thesis
    by blast
qed

text \<open>
  C8 as stated fails: a cancellation does not always come out as \<^verbatim>\<open>context.Canceled\<close>.
  A streams and the pipeline is about to read a frame when \<^verbatim>\<open>Skip\<close> (or \<^verbatim>\<open>Stop\<close>) cancels
  the context. The subprocess is killed before it writes the frame, the read finds the
  end of the stream, and \<^verbatim>\<open>streamTrack\<close> returns \<^verbatim>\<open>nil\<close>: completed. The playback task
  goes to the top of its loop without logging, as it does after \<^verbatim>\<open>context.Canceled\<close>.
\<close>

theorem cancelled_during_read_counterexample:
  "reachable (the readingA)
   \<and> inPipeline (task (the readingA))
   \<and> cancelPlayback (the readingA) = Some Live
   \<and> fst (Skip (the readingA)) = True
   \<and> cancelPlayback (snd (Skip (the readingA))) = Some Cancelled
   \<and> task (playLoopStep (envOf (replicate 3840 0)) (snd (Skip (the readingA)))) = Returned None
   \<and> fst (Stop (the readingA)) = True
   \<and> cancelPlayback (snd (Stop (the readingA))) = Some Cancelled
   \<and> task (playLoopStep (envOf (replicate 3840 0)) (snd (Stop (the readingA)))) = Returned None
   \<and> task (playLoopStep (envOf (replicate 3840 0))
        (playLoopStep (envOf (replicate 3840 0)) (snd (Skip (the readingA))))) = AtTop
   \<and> logged (playLoopStep (envOf (replicate 3840 0))
        (playLoopStep (envOf (replicate 3840 0)) (snd (Skip (the readingA))))) = []"
  using readingA_reachable
  by (simp add: readingA_eq player_ops pipeline_ops)

section \<open>The arguments of the decode subprocess\<close>

lemma fmt_d_channels: "fmt_d (int pcmChannelCount) = ''2''"
  by (simp add: fmt_d_def pcmChannelCount_def decimal.simps digit_def)

lemma fmt_d_rate: "fmt_d (int sampleRate) = ''48000''"
  by (simp add: fmt_d_def sampleRate_def decimal.simps digit_def)

lemma Join_terminated: "xs \<noteq> [] \<Longrightarrow> Join xs sep @ sep = concat (map (\<lambda>l. l @ sep) xs)"
  by (induction xs sep rule: Join.induct) simp_all

lemma sort_cong_mset: "mset xs = mset ys \<Longrightarrow> sort xs = sort (ys :: string list)"
  by (metis properties_for_sort mset_sort sorted_sort)

lemma headers_same_entries:
  assumes "distinct (map fst h1)" and "distinct (map fst h2)" and "set h1 = set h2"
  shows "mset h1 = mset h2"
proof -
  from assms have "distinct h1" and "distinct h2"
    by (simp_all add: distinct_map)
  with assms(3) show ?thesis
    by (simp add: set_eq_iff_mset_eq_distinct)
qed

lemma headersToLines_order:
  assumes "distinct (map fst h1)" and "distinct (map fst h2)" and "set h1 = set h2"
  shows "headersToLines h1 = headersToLines h2"
proof -
  from headers_same_entries [OF assms] have m: "mset h1 = mset h2" .
  then have "mset (map (\<lambda>(k, v). k @ '': '' @ v) h1) = mset (map (\<lambda>(k, v). k @ '': '' @ v) h2)"
    by simp
  then have "sort (map (\<lambda>(k, v). k @ '': '' @ v) h1) = sort (map (\<lambda>(k, v). k @ '': '' @ v) h2)"
    by (rule sort_cong_mset)
  moreover from m have "length h1 = length h2"
    by (metis size_mset)
  ultimately show ?thesis
    by (simp add: headersToLines_def)
qed

lemma headersToLines_lines:
  "h \<noteq> [] \<Longrightarrow>
   headersToLines h = concat (map (\<lambda>l. l @ CRLF) (sort (map (\<lambda>(k, v). k @ '': '' @ v) h)))"
proof -
  assume "h \<noteq> []"
  then have "sort (map (\<lambda>(k, v). k @ '': '' @ v) h) \<noteq> []"
    by (metis length_map length_sort length_0_conv)
  from Join_terminated [OF this, of CRLF] \<open>h \<noteq> []\<close> show ?thesis
    by (simp add: headersToLines_def)
qed

lemma headersToLines_empty_iff: "headersToLines h = [] \<longleftrightarrow> h = []"
proof (cases "h = []")
  case True
  then show ?thesis by (simp add: headersToLines_def)
next
  case False
  then have "headersToLines h \<noteq> []"
    by (simp add: headersToLines_def CRLF_def)
  with False show ?thesis by simp
qed

lemma buildFFMpegArgs_eq:
  "buildFFMpegArgs t =
     [''-reconnect'', ''1'', ''-reconnect_streamed'', ''1'', ''-reconnect_delay_max'', ''5'']
     @ (if HTTPHeaders t = [] then [] else [''-headers'', headersToLines (HTTPHeaders t)])
     @ [''-i'', StreamURL t, ''-vn'', ''-af'', ''loudnorm=I=-16:LRA=11:TP=-1.5'',
        ''-f'', ''s16le'', ''-ac'', ''2'', ''-ar'', ''48000'', ''pipe:1'']"
  by (simp add: buildFFMpegArgs_def headersToLines_empty_iff fmt_d_channels fmt_d_rate Let_def)

lemma decodePCM_length: "length (decodePCM bs) = length bs div 2"
  by (induction bs rule: decodePCM.induct) simp_all

lemma byteBufLen_eq: "byteBufLen = 3840"
  by (simp add: byteBufLen_def pcmBufLen_def pcmFrameSize_def pcmChannelCount_def)

lemma streamTrack_encoder:
  "SetBitrate opusBitrate (NewEncoder sampleRate pcmChannelCount)
     = \<lparr>encSampleRate = 48000, encChannels = 2, encBitrate = Some 128000\<rparr>"
  by (simp add: SetBitrate_def NewEncoder_def sampleRate_def pcmChannelCount_def opusBitrate_def)

text \<open>Inside the loop the encoder and the track stay what they were at the start.\<close>

lemma loop_keeps_encoder:
  assumes "task p = Pumping t st" and "task (playLoopStep env p) = Pumping t2 st2"
  shows "opusEncoder st2 = opusEncoder st \<and> t2 = t"
proof (cases "point st")
  case LoopTop
  with assms show ?thesis
    by (auto simp add: step_LoopTop split: if_splits)
next
  case Locking
  with assms show ?thesis
    by (auto simp add: step_Locking split: if_splits)
next
  case PauseSelect
  with assms show ?thesis
    by (auto simp add: playLoopStep_def streamTrack_def streamLoop_def
        split: if_splits option.splits list.splits)
next
  case Reading
  obtain bs e where "(if ctxErr p then killedOutput (written env) (reader st) else reader st) = (bs, e)"
    by (cases "if ctxErr p then killedOutput (written env) (reader st) else reader st")
  with assms Reading step_Reading [where p = p and t = t and st = st and env = env and bs = bs and e = e]
  show ?thesis
    by (auto split: read_result.splits sum.splits)
next
  case Sending
  with assms show ?thesis
    by (auto simp add: step_Sending split: if_splits)
qed

text \<open>
  C9. The argument list is a function of the stream URL and the header map alone: the
  three reconnect flags; for a non-empty header map one \<^verbatim>\<open>-headers\<close> argument whose value
  is the lines \<^verbatim>\<open>Key: Value\<close> in sorted order, each followed by CRLF, the same for every
  order in which the map is enumerated; then the input and the output format
  \<^verbatim>\<open>s16le\<close>, 2 channels, 48000 Hz. \<^verbatim>\<open>streamTrack\<close> starts the subprocess with that list
  and enters its loop with an encoder for 48000 Hz and 2 channels set to 128000 bit/s,
  which stays the encoder of every later step. A read of the loop asks for
  960 * 2 * 2 = 3840 bytes, which are 20 ms of audio: when fewer are left
  \<^verbatim>\<open>streamTrack\<close> returns, and otherwise exactly the next 3840 bytes are taken off the
  output, decoded to 1920 samples and given to that encoder with frame size 960.
\<close>

theorem ffmpeg_arguments:
  "buildFFMpegArgs t =
     [''-reconnect'', ''1'', ''-reconnect_streamed'', ''1'', ''-reconnect_delay_max'', ''5'']
     @ (if HTTPHeaders t = [] then [] else [''-headers'', headersToLines (HTTPHeaders t)])
     @ [''-i'', StreamURL t, ''-vn'', ''-af'', ''loudnorm=I=-16:LRA=11:TP=-1.5'',
        ''-f'', ''s16le'', ''-ac'', ''2'', ''-ar'', ''48000'', ''pipe:1'']
   \<and> (h \<noteq> [] \<longrightarrow>
        headersToLines h = concat (map (\<lambda>l. l @ CRLF) (sort (map (\<lambda>(k, v). k @ '': '' @ v) h)))
        \<and> sorted (sort (map (\<lambda>(k, v). k @ '': '' @ v) h))
        \<and> mset (sort (map (\<lambda>(k, v). k @ '': '' @ v) h)) = mset (map (\<lambda>(k, v). k @ '': '' @ v) h))
   \<and> (distinct (map fst h1) \<and> distinct (map fst h2) \<and> set h1 = set h2 \<longrightarrow>
        headersToLines h1 = headersToLines h2)
   \<and> (distinct (map fst (HTTPHeaders t)) \<and> distinct (map fst (HTTPHeaders t2))
        \<and> set (HTTPHeaders t) = set (HTTPHeaders t2) \<and> StreamURL t = StreamURL t2 \<longrightarrow>
        buildFFMpegArgs t = buildFFMpegArgs t2)
   \<and> byteBufLen = pcmFrameSize * pcmChannelCount * 2
   \<and> byteBufLen = 3840
   \<and> pcmFrameSize = 960
   \<and> pcmFrameSize * 1000 = 20 * sampleRate
   \<and> (ReadFull byteBufLen bs e = ReadOK frame bs1 \<longrightarrow>
        length frame = 3840 \<and> length (decodePCM frame) = pcmFrameSize * pcmChannelCount)
   \<and> encBitrate (SetBitrate opusBitrate (NewEncoder sampleRate pcmChannelCount)) = Some 128000
   \<and> (task p = Launching t \<and> \<not> ctxErr p \<and> newEncoderErr env sampleRate pcmChannelCount = None
        \<and> stdoutPipeErr env = None \<and> lookPathErr env = None \<and> startErr env = None \<longrightarrow>
        playLoopStep env p =
          p\<lparr>task := Pumping t
                      \<lparr>point = LoopTop,
                       opusEncoder = \<lparr>encSampleRate = 48000, encChannels = 2,
                                      encBitrate = Some 128000\<rparr>,
                       reader = ffmpeg env (buildFFMpegArgs t), packet = [], sent = []\<rparr>\<rparr>)
   \<and> (task p = Pumping t st \<and> task (playLoopStep env p) = Pumping t3 st3 \<longrightarrow>
        opusEncoder st3 = opusEncoder st \<and> t3 = t)
   \<and> (task p = Pumping t st \<and> point st = Reading
        \<and> (if ctxErr p then killedOutput (written env) (reader st) else reader st) = (bs, e)
        \<and> length bs < 3840 \<longrightarrow>
        (\<exists>r. task (playLoopStep env p) = Returned r))
   \<and> (task p = Pumping t st \<and> point st = Reading
        \<and> (if ctxErr p then killedOutput (written env) (reader st) else reader st) = (bs, e)
        \<and> 3840 \<le> length bs
        \<and> encode env (opusEncoder st) (decodePCM (take 3840 bs)) 960 4096 = Inr pk \<longrightarrow>
        length (decodePCM (take 3840 bs)) = 1920
        \<and> playLoopStep env p =
            p\<lparr>task := Pumping t (st\<lparr>point := Sending, reader := (drop 3840 bs, e), packet := pk\<rparr>)\<rparr>)"
proof -
  have sz: "byteBufLen = 3840"
    by (rule byteBufLen_eq)
  have rd: "ReadFull byteBufLen bs e = ReadOK frame bs1 \<longrightarrow>
        length frame = 3840 \<and> length (decodePCM frame) = pcmFrameSize * pcmChannelCount"
    by (auto simp add: ReadFull_def sz decodePCM_length pcmFrameSize_def pcmChannelCount_def
        split: if_splits read_end.splits)
  have same: "distinct (map fst (HTTPHeaders t)) \<and> distinct (map fst (HTTPHeaders t2))
        \<and> set (HTTPHeaders t) = set (HTTPHeaders t2) \<and> StreamURL t = StreamURL t2 \<longrightarrow>
        buildFFMpegArgs t = buildFFMpegArgs t2"
  proof
    assume a: "distinct (map fst (HTTPHeaders t)) \<and> distinct (map fst (HTTPHeaders t2))
        \<and> set (HTTPHeaders t) = set (HTTPHeaders t2) \<and> StreamURL t = StreamURL t2"
    then have "headersToLines (HTTPHeaders t) = headersToLines (HTTPHeaders t2)"
      using headersToLines_order by blast
    moreover from a have "(HTTPHeaders t = []) = (HTTPHeaders t2 = [])"
      by (metis set_empty)
    ultimately show "buildFFMpegArgs t = buildFFMpegArgs t2"
      using a by (simp add: buildFFMpegArgs_eq)
  qed
  have ln: "h \<noteq> [] \<longrightarrow>
        headersToLines h = concat (map (\<lambda>l. l @ CRLF) (sort (map (\<lambda>(k, v). k @ '': '' @ v) h)))
        \<and> sorted (sort (map (\<lambda>(k, v). k @ '': '' @ v) h))
        \<and> mset (sort (map (\<lambda>(k, v). k @ '': '' @ v) h)) = mset (map (\<lambda>(k, v). k @ '': '' @ v) h)"
    using headersToLines_lines [of h] by simp
  have od: "distinct (map fst h1) \<and> distinct (map fst h2) \<and> set h1 = set h2 \<longrightarrow>
        headersToLines h1 = headersToLines h2"
    using headersToLines_order [of h1 h2] by blast
  have cs: "byteBufLen = pcmFrameSize * pcmChannelCount * 2" "pcmFrameSize = 960"
    "pcmFrameSize * 1000 = 20 * sampleRate"
    "encBitrate (SetBitrate opusBitrate (NewEncoder sampleRate pcmChannelCount)) = Some 128000"
    by (simp_all add: byteBufLen_def pcmBufLen_def pcmFrameSize_def sampleRate_def
        opusBitrate_def SetBitrate_def NewEncoder_def)
  have la: "task p = Launching t \<and> \<not> ctxErr p \<and> newEncoderErr env sampleRate pcmChannelCount = None
        \<and> stdoutPipeErr env = None \<and> lookPathErr env = None \<and> startErr env = None \<longrightarrow>
        playLoopStep env p =
          p\<lparr>task := Pumping t
                      \<lparr>point = LoopTop,
                       opusEncoder = \<lparr>encSampleRate = 48000, encChannels = 2,
                                      encBitrate = Some 128000\<rparr>,
                       reader = ffmpeg env (buildFFMpegArgs t), packet = [], sent = []\<rparr>\<rparr>"
    by (simp add: step_Launching streamTrack_encoder)
  have ke: "task p = Pumping t st \<and> task (playLoopStep env p) = Pumping t3 st3 \<longrightarrow>
        opusEncoder st3 = opusEncoder st \<and> t3 = t"
    using loop_keeps_encoder [of p t st env t3 st3] by blast
  have r1: "task p = Pumping t st \<and> point st = Reading
        \<and> (if ctxErr p then killedOutput (written env) (reader st) else reader st) = (bs, e)
        \<and> length bs < 3840 \<longrightarrow>
        (\<exists>r. task (playLoopStep env p) = Returned r)"
    using step_Reading [where p = p and t = t and st = st and env = env and bs = bs and e = e]
    by (auto simp add: ReadFull_def sz split: read_end.splits)
  have r2: "task p = Pumping t st \<and> point st = Reading
        \<and> (if ctxErr p then killedOutput (written env) (reader st) else reader st) = (bs, e)
        \<and> 3840 \<le> length bs
        \<and> encode env (opusEncoder st) (decodePCM (take 3840 bs)) 960 4096 = Inr pk \<longrightarrow>
        length (decodePCM (take 3840 bs)) = 1920
        \<and> playLoopStep env p =
            p\<lparr>task := Pumping t (st\<lparr>point := Sending, reader := (drop 3840 bs, e), packet := pk\<rparr>)\<rparr>"
    using step_Reading [where p = p and t = t and st = st and env = env and bs = bs and e = e]
    by (auto simp add: ReadFull_def sz decodePCM_length pcmFrameSize_def opusFrameCapacity_def)
  from buildFFMpegArgs_eq [of t] ln od same cs sz rd la ke r1 r2 show ?thesis
    by blast
qed

theorem ffmpeg_arguments_witness:
  "headersToLines headersUC = ''Cookie: a=b'' @ CRLF @ ''User-Agent: kvazar'' @ CRLF
   \<and> headersToLines headersCU = headersToLines headersUC
   \<and> buildFFMpegArgs (trackA\<lparr>HTTPHeaders := headersCU\<rparr>)
       = buildFFMpegArgs (trackA\<lparr>HTTPHeaders := headersUC\<rparr>)
   \<and> buildFFMpegArgs trackA =
       [''-reconnect'', ''1'', ''-reconnect_streamed'', ''1'', ''-reconnect_delay_max'', ''5'',
        ''-i'', ''https://cdn.example.org/a'', ''-vn'', ''-af'', ''loudnorm=I=-16:LRA=11:TP=-1.5'',
        ''-f'', ''s16le'', ''-ac'', ''2'', ''-ar'', ''48000'', ''pipe:1'']
   \<and> task (playLoopStep (envOf (replicate 3840 0)) (playLoopStep (envOf (replicate 3840 0))
         (the playingA)))
       = Pumping trackA
           \<lparr>point = LoopTop,
            opusEncoder = \<lparr>encSampleRate = 48000, encChannels = 2, encBitrate = Some 128000\<rparr>,
            reader = (replicate 3840 0, EndEOF), packet = [], sent = []\<rparr>
   \<and> task (playLoopStep (envOf (replicate 3840 0)) (the readingA))
       = Pumping trackA
           \<lparr>point = Sending,
            opusEncoder = \<lparr>encSampleRate = 48000, encChannels = 2, encBitrate = Some 128000\<rparr>,
            reader = ([], EndEOF), packet = [0], sent = []\<rparr>"
proof -
  let ?env = "envOf (replicate 3840 0)"
  let ?l = "playLoopStep ?env (the playingA)"
  have d: "distinct (map fst headersCU)" "distinct (map fst headersUC)"
    "set headersCU = set headersUC" "headersUC \<noteq> []"
    by (auto simp add: headersCU_def headersUC_def)
  have s: "sort (map (\<lambda>(k, v). k @ '': '' @ v) headersUC) = [''Cookie: a=b'', ''User-Agent: kvazar'']"
    by (simp add: headersUC_def)
  from d have c1: "headersToLines headersUC
      = concat (map (\<lambda>l. l @ CRLF) (sort (map (\<lambda>(k, v). k @ '': '' @ v) headersUC)))"
    using ffmpeg_arguments [where h = headersUC, THEN conjunct2, THEN conjunct1] by blast
  from d have c2: "headersToLines headersCU = headersToLines headersUC"
    using ffmpeg_arguments [where ?h1.0 = headersCU and ?h2.0 = headersUC,
        THEN conjunct2, THEN conjunct2, THEN conjunct1]
    by blast
  from d have "distinct (map fst (HTTPHeaders (trackA\<lparr>HTTPHeaders := headersCU\<rparr>)))
      \<and> distinct (map fst (HTTPHeaders (trackA\<lparr>HTTPHeaders := headersUC\<rparr>)))
      \<and> set (HTTPHeaders (trackA\<lparr>HTTPHeaders := headersCU\<rparr>))
          = set (HTTPHeaders (trackA\<lparr>HTTPHeaders := headersUC\<rparr>))
      \<and> StreamURL (trackA\<lparr>HTTPHeaders := headersCU\<rparr>)
          = StreamURL (trackA\<lparr>HTTPHeaders := headersUC\<rparr>)"
    by simp
  then have c3: "buildFFMpegArgs (trackA\<lparr>HTTPHeaders := headersCU\<rparr>)
       = buildFFMpegArgs (trackA\<lparr>HTTPHeaders := headersUC\<rparr>)"
    using ffmpeg_arguments [where t = "trackA\<lparr>HTTPHeaders := headersCU\<rparr>"
        and ?t2.0 = "trackA\<lparr>HTTPHeaders := headersUC\<rparr>",
        THEN conjunct2, THEN conjunct2, THEN conjunct2, THEN conjunct1]
    by blast
  have c4: "buildFFMpegArgs trackA =
       [''-reconnect'', ''1'', ''-reconnect_streamed'', ''1'', ''-reconnect_delay_max'', ''5'']
       @ (if HTTPHeaders trackA = [] then [] else [''-headers'', headersToLines (HTTPHeaders trackA)])
       @ [''-i'', StreamURL trackA, ''-vn'', ''-af'', ''loudnorm=I=-16:LRA=11:TP=-1.5'',
          ''-f'', ''s16le'', ''-ac'', ''2'', ''-ar'', ''48000'', ''pipe:1'']"
    by (rule ffmpeg_arguments [THEN conjunct1])
  have l: "?l = (the playingA)\<lparr>task := Launching trackA\<rparr>"
    by (simp add: playingA_eq playLoopStep_def streamTrack_def)
  then have "task ?l = Launching trackA \<and> \<not> ctxErr ?l
      \<and> newEncoderErr ?env sampleRate pcmChannelCount = None
      \<and> stdoutPipeErr ?env = None \<and> lookPathErr ?env = None \<and> startErr ?env = None"
    by (simp add: playingA_eq ctxErr_def envOf_def)
  with ffmpeg_arguments [where p = ?l and t = trackA and env = ?env,
      THEN conjunct2, THEN conjunct2, THEN conjunct2, THEN conjunct2, THEN conjunct2, THEN conjunct2, THEN conjunct2, THEN conjunct2, THEN conjunct2, THEN conjunct2, THEN conjunct1]
  have "playLoopStep ?env ?l =
          ?l\<lparr>task := Pumping trackA
                      \<lparr>point = LoopTop,
                       opusEncoder = \<lparr>encSampleRate = 48000, encChannels = 2,
                                      encBitrate = Some 128000\<rparr>,
                       reader = ffmpeg ?env (buildFFMpegArgs trackA), packet = [], sent = []\<rparr>\<rparr>"
    by blast
  then have c5: "task (playLoopStep ?env ?l) = Pumping trackA
           \<lparr>point = LoopTop,
            opusEncoder = \<lparr>encSampleRate = 48000, encChannels = 2, encBitrate = Some 128000\<rparr>,
            reader = (replicate 3840 0, EndEOF), packet = [], sent = []\<rparr>"
    by (simp add: envOf_def)
  let ?st = "\<lparr>point = Reading,
              opusEncoder = \<lparr>encSampleRate = 48000, encChannels = 2, encBitrate = Some 128000\<rparr>,
              reader = (replicate 3840 (0::8 word), EndEOF), packet = [], sent = []\<rparr>"
  have "task (the readingA) = Pumping trackA ?st \<and> point ?st = Reading
        \<and> (if ctxErr (the readingA) then killedOutput (written ?env) (reader ?st) else reader ?st)
            = (replicate 3840 0, EndEOF)
        \<and> 3840 \<le> length (replicate 3840 (0::8 word))
        \<and> encode ?env (opusEncoder ?st) (decodePCM (take 3840 (replicate 3840 0))) 960 4096 = Inr [0]"
    by (simp add: readingA_eq ctxErr_def envOf_def)
  with ffmpeg_arguments [where p = "the readingA" and t = trackA and st = ?st and env = ?env
      and bs = "replicate 3840 0" and e = EndEOF and pk = "[0]",
      THEN conjunct2, THEN conjunct2, THEN conjunct2, THEN conjunct2, THEN conjunct2, THEN conjunct2, THEN conjunct2, THEN conjunct2, THEN conjunct2, THEN conjunct2, THEN conjunct2, THEN conjunct2, THEN conjunct2]
  have "playLoopStep ?env (the readingA) =
      (the readingA)\<lparr>task := Pumping trackA
        (?st\<lparr>point := Sending, reader := (drop 3840 (replicate 3840 0), EndEOF), packet := [0]\<rparr>)\<rparr>"
    by blast
  then have c6: "task (playLoopStep ?env (the readingA)) = Pumping trackA
           \<lparr>point = Sending,
            opusEncoder = \<lparr>encSampleRate = 48000, encChannels = 2, encBitrate = Some 128000\<rparr>,
            reader = ([], EndEOF), packet = [0], sent = []\<rparr>"
    by simp
  from c1 s have "headersToLines headersUC = ''Cookie: a=b'' @ CRLF @ ''User-Agent: kvazar'' @ CRLF"
    by simp
  moreover from c4 have "buildFFMpegArgs trackA =
       [''-reconnect'', ''1'', ''-reconnect_streamed'', ''1'', ''-reconnect_delay_max'', ''5'',
        ''-i'', ''https://cdn.example.org/a'', ''-vn'', ''-af'', ''loudnorm=I=-16:LRA=11:TP=-1.5'',
        ''-f'', ''s16le'', ''-ac'', ''2'', ''-ar'', ''48000'', ''pipe:1'']"
    by (simp add: trackA_def)
  ultimately show ?thesis
    using c2 c3 c5 c6 by blast
qed

section \<open>Rounding to \<^verbatim>\<open>float64\<close>\<close>

lemma rhe_floor: "roundHalfEven q = \<lfloor>q\<rfloor> \<or> roundHalfEven q = \<lfloor>q\<rfloor> + 1"
  by (simp add: roundHalfEven_def Let_def)

lemma rhe_ge: "of_int k \<le> q \<Longrightarrow> k \<le> roundHalfEven q"
proof -
  assume "of_int k \<le> q"
  then have "k \<le> \<lfloor>q\<rfloor>" by (simp add: le_floor_iff)
  with rhe_floor [of q] show ?thesis by linarith
qed

lemma rhe_of_int [simp]: "roundHalfEven (of_int k) = k"
  by (simp add: roundHalfEven_def)

lemma rhe_zero [simp]: "roundHalfEven 0 = 0"
  by (simp add: roundHalfEven_def)

lemma rhe_le: "q \<le> of_int k \<Longrightarrow> roundHalfEven q \<le> k"
proof (cases "q = of_int k")
  case True
  then show ?thesis by simp
next
  case False
  assume "q \<le> of_int k"
  with False have "q < of_int k" by simp
  then have "\<lfloor>q\<rfloor> < k" by (simp add: floor_less_iff)
  with rhe_floor [of q] show ?thesis by linarith
qed

lemma rhe_upper: "of_int (roundHalfEven q) \<le> q + 1 / 2"
proof (cases "q - of_int \<lfloor>q\<rfloor> < 1 / 2")
  case True
  then have "roundHalfEven q = \<lfloor>q\<rfloor>" by (simp add: roundHalfEven_def Let_def)
  moreover have "of_int \<lfloor>q\<rfloor> \<le> q + 1 / 2"
    using of_int_floor_le [of q] by linarith
  ultimately show ?thesis by simp
next
  case False
  then have "of_int \<lfloor>q\<rfloor> + 1 \<le> q + 1 / 2" by simp
  moreover from rhe_floor [of q] have "(of_int (roundHalfEven q) :: rat) \<le> of_int \<lfloor>q\<rfloor> + 1"
    by auto
  ultimately show ?thesis by linarith
qed

lemma rhe_lower: "q - 1 / 2 \<le> of_int (roundHalfEven q)"
proof (cases "1 / 2 < q - of_int \<lfloor>q\<rfloor>")
  case True
  then have "roundHalfEven q = \<lfloor>q\<rfloor> + 1" by (simp add: roundHalfEven_def Let_def)
  moreover have "q - 1 / 2 \<le> of_int (\<lfloor>q\<rfloor> + 1)"
    using floor_correct [of q] by simp
  ultimately show ?thesis by simp
next
  case False
  then have "q - 1 / 2 \<le> of_int \<lfloor>q\<rfloor>" by simp
  moreover from rhe_floor [of q] have "(of_int \<lfloor>q\<rfloor> :: rat) \<le> of_int (roundHalfEven q)"
    by auto
  ultimately show ?thesis by linarith
qed

lemma minExp_ge: "53 \<le> minExp"
  by (simp add: minExp_def)

lemma float64_grid:
  fixes x :: rat and L :: nat
  assumes lo: "2 ^ L \<le> 2 * x" and hi: "x < 2 ^ L" and L1: "1 \<le> L" and L53: "L \<le> 53"
  shows "float64 x = of_int (roundHalfEven (x * 2 ^ (53 - L))) / 2 ^ (53 - L)"
proof -
  define E where "E = minExp"
  have E: "53 \<le> E" by (simp add: E_def minExp_ge)
  let ?N = "\<lfloor>x * 2 ^ E\<rfloor>"
  have "(0::rat) < 2 ^ L" by simp
  with lo have xpos: "0 < x" by linarith
  from L1 have "L + E - 1 + 1 = L + E"
    by simp
  then have "(2::rat) ^ (L + E - 1) * 2 ^ 1 = 2 ^ (L + E)"
    by (simp only: flip: power_add)
  then have e1: "(2::rat) ^ (L + E - 1) * 2 = 2 ^ L * 2 ^ E"
    by (simp add: power_add)
  from lo have "2 ^ L * 2 ^ E \<le> 2 * x * (2::rat) ^ E"
    by (simp add: mult_right_mono)
  with e1 have "(2::rat) ^ (L + E - 1) \<le> x * 2 ^ E"
    by linarith
  then have "of_int (2 ^ (L + E - 1)) \<le> x * 2 ^ E"
    by simp
  then have Nlo: "2 ^ (L + E - 1) \<le> ?N"
    by (simp only: le_floor_iff)
  from hi have "x * 2 ^ E < 2 ^ L * (2::rat) ^ E"
    by (simp add: mult_strict_right_mono)
  then have "x * 2 ^ E < of_int (2 ^ (L + E))"
    by (simp add: power_add)
  then have Nhi: "?N < 2 ^ (L + E)"
    by (simp only: floor_less_iff)
  have b: "bitlen ?N = int (L + E)"
  proof (rule antisym)
    show "bitlen ?N \<le> int (L + E)"
      using Nhi by (simp add: bitlen_le_iff_power del: of_nat_add)
    show "int (L + E) \<le> bitlen ?N"
      using Nlo L1 by (simp add: bitlen_ge_iff_power del: of_nat_add)
  qed
  from E have g: "nat (int (L + E) - 53) = L + E - 53"
    by simp
  from L53 E have "L + E - 53 + (53 - L) = E"
    by simp
  then have p: "(2::rat) ^ E = 2 ^ (L + E - 53) * 2 ^ (53 - L)"
    by (simp flip: power_add)
  have q: "x * 2 ^ E / of_int (2 ^ (L + E - 53)) = x * 2 ^ (53 - L)"
    by (simp add: p)
  have r: "of_int (n * 2 ^ (L + E - 53)) / (2::rat) ^ E = of_int n / 2 ^ (53 - L)" for n
    by (simp add: p)
  from xpos have "float64 x
      = of_int (roundHalfEven (x * 2 ^ E / of_int (2 ^ nat (bitlen ?N - 53))) * 2 ^ nat (bitlen ?N - 53))
        / 2 ^ E"
    by (simp add: float64_def Let_def E_def)
  then show ?thesis
    by (simp only: b g q r)
qed

lemma float64_unit:
  fixes x :: rat
  assumes "0 \<le> x" and "x < 1"
  shows "0 \<le> float64 x \<and> float64 x \<le> x + 1 / 2 ^ 54 \<and> x - 1 / 2 ^ 54 \<le> float64 x"
proof -
  define E where "E = minExp"
  have E: "53 \<le> E" by (simp add: E_def minExp_ge)
  let ?N = "\<lfloor>x * 2 ^ E\<rfloor>"
  define g :: int where "g = 2 ^ nat (bitlen ?N - 53)"
  define n where "n = roundHalfEven (x * 2 ^ E / of_int g)"
  from assms have "x * 2 ^ E < of_int (2 ^ E)"
    by simp
  then have "?N < 2 ^ E"
    by (simp only: floor_less_iff)
  then have "bitlen ?N \<le> int E"
    by (simp add: bitlen_le_iff_power)
  with E have "nat (bitlen ?N - 53) \<le> E - 53"
    by simp
  then have "(2::int) ^ nat (bitlen ?N - 53) \<le> 2 ^ (E - 53)"
    by (rule power_increasing) simp
  then have "(of_int g :: rat) \<le> of_int (2 ^ (E - 53))"
    unfolding g_def by (simp only: of_int_le_iff)
  then have gle: "of_int g \<le> (2::rat) ^ (E - 53)"
    by simp
  have gpos: "0 < (of_int g :: rat)"
    by (simp add: g_def)
  from E have "E - 53 + 53 = E" by simp
  then have p: "(2::rat) ^ E = 2 ^ (E - 53) * 2 ^ 53"
    by (simp only: flip: power_add)
  have half: "(2::rat) ^ (E - 53) / 2 / 2 ^ E = 1 / 2 ^ 54"
    by (simp add: p)
  have f: "float64 x = of_int n * of_int g / 2 ^ E"
    using assms by (cases "x = 0") (simp_all add: float64_def Let_def g_def n_def E_def)
  from assms gpos have "of_int 0 \<le> x * 2 ^ E / of_int g"
    by simp
  then have npos: "0 \<le> n"
    unfolding n_def by (rule rhe_ge)
  have up: "of_int n \<le> x * 2 ^ E / of_int g + 1 / 2"
    unfolding n_def by (rule rhe_upper)
  have dn: "x * 2 ^ E / of_int g - 1 / 2 \<le> of_int n"
    unfolding n_def by (rule rhe_lower)
  define S :: rat where "S = 2 ^ E"
  define G :: rat where "G = of_int g"
  define T :: rat where "T = 2 ^ (E - 53)"
  have Spos: "0 < S" by (simp add: S_def)
  have Gpos: "0 < G" using gpos by (simp add: G_def)
  have GT: "G \<le> T" using gle by (simp add: G_def T_def)
  have TS: "T / 2 / S = 1 / 2 ^ 54" using half by (simp add: S_def T_def)
  from up have up': "of_int n \<le> x * S / G + 1 / 2" by (simp add: S_def G_def)
  from dn have dn': "x * S / G - 1 / 2 \<le> of_int n" by (simp add: S_def G_def)
  from up' Gpos have "of_int n * G \<le> (x * S / G + 1 / 2) * G"
    by (simp only: mult_right_mono less_imp_le)
  also from Gpos have "\<dots> = x * S + G / 2"
    by (simp add: field_simps)
  also from GT have "\<dots> \<le> x * S + T / 2"
    by simp
  finally have "of_int n * G / S \<le> (x * S + T / 2) / S"
    using Spos by (simp only: divide_right_mono less_imp_le)
  also from Spos have "\<dots> = x + T / 2 / S"
    by (simp add: field_simps)
  finally have c2: "of_int n * G / S \<le> x + 1 / 2 ^ 54"
    by (simp only: TS)
  from dn' Gpos have "(x * S / G - 1 / 2) * G \<le> of_int n * G"
    by (simp only: mult_right_mono less_imp_le)
  moreover from Gpos have "(x * S / G - 1 / 2) * G = x * S - G / 2"
    by (simp add: field_simps)
  moreover from GT have "x * S - T / 2 \<le> x * S - G / 2"
    by simp
  ultimately have "x * S - T / 2 \<le> of_int n * G"
    by linarith
  then have "(x * S - T / 2) / S \<le> of_int n * G / S"
    using Spos by (simp only: divide_right_mono less_imp_le)
  moreover from Spos have "(x * S - T / 2) / S = x - T / 2 / S"
    by (simp add: field_simps)
  ultimately have c3: "x - 1 / 2 ^ 54 \<le> of_int n * G / S"
    by (simp only: TS)
  from npos Gpos Spos have c1: "0 \<le> of_int n * G / S"
    by simp
  from c1 c2 c3 show ?thesis
    by (simp only: f S_def G_def)
qed

lemma rhe_gt: "of_int k - 1 / 2 < q \<Longrightarrow> k \<le> roundHalfEven q"
proof -
  assume "of_int k - 1 / 2 < q"
  with rhe_lower [of q] have "(of_int k :: rat) - 1 < of_int (roundHalfEven q)"
    by linarith
  then have "(of_int (k - 1) :: rat) < of_int (roundHalfEven q)"
    by simp
  then have "k - 1 < roundHalfEven q"
    by (simp only: of_int_less_iff)
  then show ?thesis by simp
qed

lemma rhe_lt: "q < of_int k - 1 / 2 \<Longrightarrow> roundHalfEven q < k"
proof -
  assume "q < of_int k - 1 / 2"
  with rhe_upper [of q] have "(of_int (roundHalfEven q) :: rat) < of_int k"
    by linarith
  then show ?thesis
    by (simp only: of_int_less_iff)
qed

lemma bitlen_window:
  fixes m :: int
  assumes "0 < m" and "m < 2 ^ 53"
  shows "1 \<le> nat (bitlen m) \<and> nat (bitlen m) \<le> 53
         \<and> 2 ^ nat (bitlen m) \<le> 2 * m \<and> m < 2 ^ nat (bitlen m)"
proof -
  from assms(1) have b1: "1 \<le> bitlen m"
    using bitlen_eq_zero_iff [of m] bitlen_nonneg [of m] by linarith
  from assms(2) have b53: "bitlen m \<le> 53"
    by (simp add: bitlen_le_iff_power)
  from b1 have "nat (bitlen m) = Suc (nat (bitlen m - 1))"
    by simp
  then have "(2::int) ^ nat (bitlen m) = 2 * 2 ^ nat (bitlen m - 1)"
    by simp
  with bitlen_bounds [OF assms(1)] have "2 ^ nat (bitlen m) \<le> 2 * m" "m < 2 ^ nat (bitlen m)"
    by simp_all
  moreover from b1 b53 have "1 \<le> nat (bitlen m)" "nat (bitlen m) \<le> 53"
    by linarith+
  ultimately show ?thesis
    by blast
qed

lemma float64_of_int:
  fixes m :: int
  assumes "0 \<le> m" and "m < 2 ^ 53"
  shows "float64 (of_int m) = of_int m"
proof (cases "m = 0")
  case True
  then show ?thesis by (simp add: float64_def)
next
  case False
  with assms have mpos: "0 < m" by simp
  define L where "L = nat (bitlen m)"
  from bitlen_window [OF mpos assms(2)]
  have L: "1 \<le> L" "L \<le> 53" "2 ^ L \<le> 2 * m" "m < 2 ^ L"
    by (simp_all add: L_def)
  from L(3) have "(of_int (2 ^ L) :: rat) \<le> of_int (2 * m)"
    by (simp only: of_int_le_iff)
  then have lo: "(2::rat) ^ L \<le> 2 * of_int m"
    by simp
  from L(4) have "(of_int m :: rat) < of_int (2 ^ L)"
    by (simp only: of_int_less_iff)
  then have hi: "(of_int m :: rat) < 2 ^ L"
    by simp
  have "(of_int m :: rat) * 2 ^ (53 - L) = of_int (m * 2 ^ (53 - L))"
    by simp
  then have "roundHalfEven (of_int m * 2 ^ (53 - L)) = m * 2 ^ (53 - L)"
    by (simp only: rhe_of_int)
  with float64_grid [OF lo hi L(1) L(2)] show ?thesis
    by simp
qed

lemma float64_sum:
  fixes sec :: int and r :: rat
  assumes sec: "0 < sec" "sec < 2 ^ 53" and r: "0 \<le> r" "r < 1"
  shows "of_int sec \<le> float64 (of_int sec + r) \<and> float64 (of_int sec + r) \<le> of_int sec + 1
         \<and> (sec < 2 ^ 24 \<and> r < 1 - 1 / 2 ^ 30 \<longrightarrow> float64 (of_int sec + r) < of_int sec + 1)
         \<and> (2 ^ 24 \<le> sec \<and> 1 - 1 / 2 ^ 29 < r \<longrightarrow> float64 (of_int sec + r) = of_int sec + 1)"
proof -
  define L where "L = nat (bitlen sec)"
  define M :: rat where "M = 2 ^ (53 - L)"
  define x where "x = of_int sec + r"
  from bitlen_window [OF sec]
  have L: "1 \<le> L" "L \<le> 53" "2 ^ L \<le> 2 * sec" "sec < 2 ^ L"
    by (simp_all add: L_def)
  from L(3) have "(of_int (2 ^ L) :: rat) \<le> of_int (2 * sec)"
    by (simp only: of_int_le_iff)
  with r have lo: "(2::rat) ^ L \<le> 2 * x"
    by (simp add: x_def)
  from L(4) have "sec + 1 \<le> 2 ^ L"
    by simp
  then have "(of_int (sec + 1) :: rat) \<le> of_int (2 ^ L)"
    by (simp only: of_int_le_iff)
  with r have hi: "x < 2 ^ L"
    by (simp add: x_def)
  have Mpos: "0 < M" by (simp add: M_def)
  have f: "float64 x = of_int (roundHalfEven (x * M)) / M"
    using float64_grid [OF lo hi L(1) L(2)] by (simp add: M_def)
  have kM: "of_int k * M = of_int (k * 2 ^ (53 - L))" for k
    by (simp add: M_def)
  \<comment> \<open>the lower neighbour\<close>
  from r Mpos have "of_int sec * M \<le> x * M"
    by (simp add: x_def)
  then have "sec * 2 ^ (53 - L) \<le> roundHalfEven (x * M)"
    by (simp only: kM rhe_ge)
  then have "(of_int (sec * 2 ^ (53 - L)) :: rat) \<le> of_int (roundHalfEven (x * M))"
    by (simp only: of_int_le_iff)
  then have "of_int sec * M \<le> of_int (roundHalfEven (x * M))"
    by (simp only: kM)
  with Mpos have c1: "of_int sec \<le> float64 x"
    by (simp add: f pos_le_divide_eq)
  \<comment> \<open>the upper neighbour\<close>
  from r Mpos have "x * M \<le> of_int (sec + 1) * M"
    by (simp add: x_def)
  then have "roundHalfEven (x * M) \<le> (sec + 1) * 2 ^ (53 - L)"
    by (simp only: kM rhe_le)
  then have "(of_int (roundHalfEven (x * M)) :: rat) \<le> of_int ((sec + 1) * 2 ^ (53 - L))"
    by (simp only: of_int_le_iff)
  then have up: "of_int (roundHalfEven (x * M)) \<le> of_int (sec + 1) * M"
    by (simp only: kM)
  with Mpos have c2: "float64 x \<le> of_int sec + 1"
    by (simp add: f pos_divide_le_eq)
  \<comment> \<open>below 2^24 the spacing is at most 2^-29\<close>
  have c3: "float64 x < of_int sec + 1" if small: "sec < 2 ^ 24" and rr: "r < 1 - 1 / 2 ^ 30"
  proof -
    from small have "bitlen sec \<le> 24"
      by (simp add: bitlen_le_iff_power)
    then have "L \<le> 24" by (simp add: L_def)
    then have "29 \<le> 53 - L" by simp
    then have "(2::rat) ^ 29 \<le> 2 ^ (53 - L)"
      by (rule power_increasing) simp
    then have M29: "2 ^ 29 \<le> M" by (simp add: M_def)
    from rr have "1 / 2 ^ 30 < 1 - r" by simp
    then have "1 / 2 ^ 30 * 2 ^ 29 < (1 - r) * 2 ^ 29"
      by (rule mult_strict_right_mono) simp
    moreover from r M29 have "(1 - r) * 2 ^ 29 \<le> (1 - r) * M"
      by (intro mult_left_mono) simp_all
    ultimately have "1 / 2 ^ 30 * 2 ^ 29 < (1 - r) * M"
      by (rule less_le_trans)
    then have "1 / 2 < (1 - r) * M"
      by simp
    moreover have "x * M = of_int (sec + 1) * M - (1 - r) * M"
      by (simp add: x_def algebra_simps)
    ultimately have "x * M < of_int (sec + 1) * M - 1 / 2"
      by linarith
    then have "x * M < of_int ((sec + 1) * 2 ^ (53 - L)) - 1 / 2"
      by (simp only: kM)
    then have "roundHalfEven (x * M) < (sec + 1) * 2 ^ (53 - L)"
      by (rule rhe_lt)
    then have "(of_int (roundHalfEven (x * M)) :: rat) < of_int ((sec + 1) * 2 ^ (53 - L))"
      by (simp only: of_int_less_iff)
    then have "of_int (roundHalfEven (x * M)) < of_int (sec + 1) * M"
      by (simp only: kM)
    with Mpos show ?thesis
      by (simp add: f pos_divide_less_eq)
  qed
  \<comment> \<open>from 2^24 on the spacing is at least 2^-28\<close>
  have c4: "float64 x = of_int sec + 1" if large: "2 ^ 24 \<le> sec" and rr: "1 - 1 / 2 ^ 29 < r"
  proof -
    from large have "25 \<le> bitlen sec"
      by (simp add: bitlen_ge_iff_power)
    then have "25 \<le> L" by (simp add: L_def)
    then have "53 - L \<le> 28" by simp
    then have "(2::rat) ^ (53 - L) \<le> 2 ^ 28"
      by (rule power_increasing) simp
    then have M28: "M \<le> 2 ^ 28" by (simp add: M_def)
    from rr r have "0 < 1 - r" "1 - r < 1 / 2 ^ 29" by simp_all
    then have "(1 - r) * 2 ^ 28 < 1 / 2 ^ 29 * 2 ^ 28"
      by (intro mult_strict_right_mono) simp_all
    moreover from r M28 have "(1 - r) * M \<le> (1 - r) * 2 ^ 28"
      by (intro mult_left_mono) simp_all
    ultimately have "(1 - r) * M < 1 / 2 ^ 29 * 2 ^ 28"
      by (rule le_less_trans [rotated])
    then have "(1 - r) * M < 1 / 2"
      by simp
    moreover have "x * M = of_int (sec + 1) * M - (1 - r) * M"
      by (simp add: x_def algebra_simps)
    ultimately have "of_int (sec + 1) * M - 1 / 2 < x * M"
      by linarith
    then have "of_int ((sec + 1) * 2 ^ (53 - L)) - 1 / 2 < x * M"
      by (simp only: kM)
    then have "(sec + 1) * 2 ^ (53 - L) \<le> roundHalfEven (x * M)"
      by (rule rhe_gt)
    then have "(of_int ((sec + 1) * 2 ^ (53 - L)) :: rat) \<le> of_int (roundHalfEven (x * M))"
      by (simp only: of_int_le_iff)
    then have "of_int (sec + 1) * M \<le> of_int (roundHalfEven (x * M))"
      by (simp only: kM)
    with up have "of_int (roundHalfEven (x * M)) = of_int (sec + 1) * M"
      by linarith
    with Mpos show ?thesis
      by (simp add: f)
  qed
  from c1 c2 c3 c4 show ?thesis
    by (simp add: x_def)
qed

lemma Seconds_nonneg:
  assumes "0 \<le> d" and "d < 2 ^ 63"
  shows "Seconds d
         = float64 (of_int (d div 1000000000) + float64 (of_int (d mod 1000000000) / 1000000000))"
proof -
  from assms have q: "d sdiv 1000000000 = d div 1000000000" "d smod 1000000000 = d mod 1000000000"
    by (simp_all add: signed_divide_int_def signed_modulo_int_def sgn_if)
  from assms have "0 \<le> d div 1000000000" "d div 1000000000 < 2 ^ 53"
    by simp_all
  then have a: "float64 (of_int (d div 1000000000)) = of_int (d div 1000000000)"
    by (rule float64_of_int)
  have "0 \<le> d mod 1000000000" "d mod 1000000000 < 2 ^ 53"
    by (simp_all add: pos_mod_bound [THEN less_trans])
  then have b: "float64 (of_int (d mod 1000000000)) = of_int (d mod 1000000000)"
    by (rule float64_of_int)
  have "float64 (of_int 1000000000) = of_int 1000000000"
    by (rule float64_of_int) simp_all
  then have c: "float64 1000000000 = 1000000000"
    by simp
  show ?thesis
    by (simp only: Seconds_def Let_def q a b c)
qed

lemma fraction_rounded:
  fixes n :: int
  assumes "0 \<le> n" and "n < 1000000000"
  shows "0 \<le> float64 (of_int n / 1000000000)
         \<and> float64 (of_int n / 1000000000) < 1 - 1 / 2 ^ 30
         \<and> (n = 999999999 \<longrightarrow> 1 - 1 / 2 ^ 29 < float64 (of_int n / 1000000000))"
proof -
  define x :: rat where "x = of_int n / 1000000000"
  from assms have "n \<le> 999999999"
    by simp
  then have "(of_int n :: rat) \<le> of_int 999999999"
    by (simp only: of_int_le_iff)
  then have xle: "x \<le> 999999999 / 1000000000"
    by (simp add: x_def)
  from assms have x0: "0 \<le> x"
    by (simp add: x_def)
  from xle have x1: "x < 1" by simp
  from float64_unit [OF x0 x1]
  have u: "0 \<le> float64 x" "float64 x \<le> x + 1 / 2 ^ 54" "x - 1 / 2 ^ 54 \<le> float64 x"
    by simp_all
  from u(2) xle have "float64 x \<le> 999999999 / 1000000000 + 1 / 2 ^ 54"
    by linarith
  then have c2: "float64 x < 1 - 1 / 2 ^ 30"
    by simp
  have c3: "1 - 1 / 2 ^ 29 < float64 x" if "n = 999999999"
  proof -
    from that have "x = 999999999 / 1000000000"
      by (simp add: x_def)
    then have "1 - 1 / 2 ^ 29 < x - 1 / 2 ^ 54"
      by simp
    with u(3) show ?thesis
      by (rule less_le_trans [rotated])
  qed
  from u(1) c2 c3 show ?thesis
    by (simp add: x_def)
qed

lemma Seconds_toInt:
  assumes "0 \<le> d" and "d < 2 ^ 63"
  shows "(toInt (Seconds d) = d div 1000000000 \<or> toInt (Seconds d) = d div 1000000000 + 1)
         \<and> (d div 1000000000 < 2 ^ 24 \<longrightarrow> toInt (Seconds d) = d div 1000000000)
         \<and> (2 ^ 24 \<le> d div 1000000000 \<and> d mod 1000000000 = 999999999 \<longrightarrow>
              toInt (Seconds d) = d div 1000000000 + 1)"
proof -
  define sec where "sec = d div 1000000000"
  define r where "r = float64 (of_int (d mod 1000000000) / 1000000000)"
  have S: "Seconds d = float64 (of_int sec + r)"
    using Seconds_nonneg [OF assms] by (simp add: sec_def r_def)
  have "0 \<le> d mod 1000000000" "d mod 1000000000 < 1000000000"
    by simp_all
  from fraction_rounded [OF this]
  have r: "0 \<le> r" "r < 1 - 1 / 2 ^ 30" "d mod 1000000000 = 999999999 \<longrightarrow> 1 - 1 / 2 ^ 29 < r"
    by (simp_all add: r_def)
  from r(2) have r1: "r < 1" by simp
  from assms have sec: "0 \<le> sec" "sec < 2 ^ 53"
    by (simp_all add: sec_def)
  show ?thesis
  proof (cases "sec = 0")
    case True
    from float64_unit [OF r(1) r1] r(2) have "0 \<le> float64 r" "float64 r < 1"
      by simp_all
    then have "\<lfloor>float64 r\<rfloor> = 0" "0 \<le> float64 r"
      by (simp_all add: floor_unique)
    with True S show ?thesis
      by (simp add: toInt_def sec_def [symmetric])
  next
    case False
    with sec have pos: "0 < sec" by simp
    from float64_sum [OF pos sec(2) r(1) r1]
    have b: "of_int sec \<le> Seconds d" "Seconds d \<le> of_int sec + 1"
      "sec < 2 ^ 24 \<and> r < 1 - 1 / 2 ^ 30 \<longrightarrow> Seconds d < of_int sec + 1"
      "2 ^ 24 \<le> sec \<and> 1 - 1 / 2 ^ 29 < r \<longrightarrow> Seconds d = of_int sec + 1"
      by (simp_all add: S)
    from pos have "(0::rat) \<le> of_int sec"
      by simp
    with b(1) have nn: "0 \<le> Seconds d"
      by (rule order_trans [rotated])
    have c1: "toInt (Seconds d) = sec \<or> toInt (Seconds d) = sec + 1"
    proof (cases "Seconds d < of_int sec + 1")
      case True
      with b(1) have "\<lfloor>Seconds d\<rfloor> = sec"
        by (simp add: floor_unique)
      with nn show ?thesis by (simp add: toInt_def)
    next
      case False
      with b(2) have "Seconds d = of_int (sec + 1)" by simp
      then have "\<lfloor>Seconds d\<rfloor> = sec + 1"
        by (simp only: floor_of_int)
      with nn show ?thesis by (simp add: toInt_def)
    qed
    have c2: "toInt (Seconds d) = sec" if "sec < 2 ^ 24"
    proof -
      from that b(3) r(2) have "Seconds d < of_int sec + 1" by blast
      with b(1) have "\<lfloor>Seconds d\<rfloor> = sec"
        by (simp add: floor_unique)
      with nn show ?thesis by (simp add: toInt_def)
    qed
    have c3: "toInt (Seconds d) = sec + 1" if "2 ^ 24 \<le> sec" and "d mod 1000000000 = 999999999"
    proof -
      from that b(4) r(3) have "Seconds d = of_int (sec + 1)" by simp
      then have "\<lfloor>Seconds d\<rfloor> = sec + 1"
        by (simp only: floor_of_int)
      with nn show ?thesis by (simp add: toInt_def)
    qed
    from c1 c2 c3 show ?thesis
      by (simp add: sec_def)
  qed
qed

section \<open>HumanDuration\<close>

lemma digit_zero: "digit 0 = CHR ''0''"
  by (simp add: digit_def)

lemma decimal_small: "n < 10 \<Longrightarrow> decimal n = [digit n]"
  by (simp add: decimal.simps [of n])

lemma decimal_two: "10 \<le> n \<Longrightarrow> n < 100 \<Longrightarrow> decimal n = [digit (n div 10), digit (n mod 10)]"
  by (simp add: decimal.simps [of n] decimal_small)

lemma fmt_02d_small: "n < 100 \<Longrightarrow> fmt_02d (int n) = [digit (n div 10), digit (n mod 10)]"
proof (cases "n < 10")
  case True
  then show ?thesis
    by (simp add: fmt_02d_def decimal_small digit_zero)
next
  case False
  assume "n < 100"
  with False show ?thesis
    by (simp add: fmt_02d_def decimal_two)
qed

lemma fmt_d_nat: "fmt_d (int n) = decimal n"
  by (simp add: fmt_d_def)

lemma sdiv_nat: "int a sdiv int b = int (a div b)"
  by (simp add: signed_divide_int_def sgn_if zdiv_int)

lemma smod_nat: "int a smod int b = int (a mod b)"
  by (simp add: signed_modulo_int_def sgn_if zmod_int)

lemma HumanDuration_of_seconds:
  assumes "Duration t \<noteq> 0" and "toInt (Seconds (sint (Duration t))) = int s"
  shows "HumanDuration t =
           (if 3600 \<le> s
            then decimal (s div 3600)
                 @ [CHR '':'', digit (s mod 3600 div 60 div 10), digit (s mod 3600 div 60 mod 10),
                    CHR '':'', digit (s mod 60 div 10), digit (s mod 60 mod 10)]
            else [digit (s div 60 div 10), digit (s div 60 mod 10),
                  CHR '':'', digit (s mod 60 div 10), digit (s mod 60 mod 10)])"
proof -
  have h: "int s sdiv 3600 = int (s div 3600)"
    using sdiv_nat [of s 3600] by simp
  have m: "(int s smod 3600) sdiv 60 = int (s mod 3600 div 60)"
    using smod_nat [of s 3600] sdiv_nat [of "s mod 3600" 60] by simp
  have c: "int s smod 60 = int (s mod 60)"
    using smod_nat [of s 60] by simp
  have m60: "s mod 3600 div 60 < 100" "s mod 60 < 100"
    by (simp_all add: less_mult_imp_div_less)
  from assms have u: "HumanDuration t =
      (if 0 < int (s div 3600)
       then fmt_d (int (s div 3600)) @ '':'' @ fmt_02d (int (s mod 3600 div 60))
            @ '':'' @ fmt_02d (int (s mod 60))
       else fmt_02d (int (s mod 3600 div 60)) @ '':'' @ fmt_02d (int (s mod 60)))"
    by (simp only: HumanDuration_def Let_def h m c if_False)
  show ?thesis
  proof (cases "3600 \<le> s")
    case True
    then have "0 < int (s div 3600)"
      by (simp add: div_greater_zero_iff)
    with u True show ?thesis
      by (simp add: fmt_d_nat fmt_02d_small m60)
  next
    case False
    then have "\<not> 0 < int (s div 3600)" "s mod 3600 div 60 = s div 60"
      by simp_all
    with u False show ?thesis
      by (simp add: fmt_02d_small m60)
  qed
qed

lemma HumanDuration_live: "(HumanDuration t = ''live'') = (Duration t = 0)"
proof (cases "Duration t = 0")
  case True
  then show ?thesis by (simp add: HumanDuration_def)
next
  case False
  then have "CHR '':'' \<in> set (HumanDuration t)"
    by (simp add: HumanDuration_def Let_def)
  moreover have "CHR '':'' \<notin> set ''live''"
    by simp
  ultimately have "HumanDuration t \<noteq> ''live''"
    by metis
  with False show ?thesis by simp
qed

lemma sint_Duration_bound: "sint (Duration t) < 2 ^ 63"
  using sint_lt [of "Duration t"] by simp

lemma seconds_of_positive:
  assumes "0 < sint (Duration t)"
  shows "Duration t \<noteq> 0"
    and "toInt (Seconds (sint (Duration t))) = sint (Duration t) div 1000000000
         \<or> toInt (Seconds (sint (Duration t))) = sint (Duration t) div 1000000000 + 1"
    and "sint (Duration t) div 1000000000 < 2 ^ 24 \<Longrightarrow>
         toInt (Seconds (sint (Duration t))) = sint (Duration t) div 1000000000"
proof -
  from assms show "Duration t \<noteq> 0" by auto
  from assms have "0 \<le> sint (Duration t)" by simp
  from Seconds_toInt [OF this sint_Duration_bound]
  show "toInt (Seconds (sint (Duration t))) = sint (Duration t) div 1000000000
         \<or> toInt (Seconds (sint (Duration t))) = sint (Duration t) div 1000000000 + 1"
    and "sint (Duration t) div 1000000000 < 2 ^ 24 \<Longrightarrow>
         toInt (Seconds (sint (Duration t))) = sint (Duration t) div 1000000000"
    by blast+
qed

text \<open>
  C10, as the code has it. \<^verbatim>\<open>HumanDuration\<close> returns \<^verbatim>\<open>live\<close> exactly when the duration is
  zero. For a positive duration it renders \<^verbatim>\<open>int(Duration.Seconds())\<close>: below one hour as
  two-digit minutes and seconds, from one hour on as hours, two-digit minutes and
  two-digit seconds. Below \<open>2 ^ 24\<close> seconds that number is the duration in whole seconds,
  the remainder cut off; from \<open>2 ^ 24\<close> seconds on it is that or one more, because the
  sum in \<^verbatim>\<open>Seconds()\<close> is rounded to \<^verbatim>\<open>float64\<close>.
\<close>

theorem HumanDuration_render:
  "(HumanDuration t = ''live'') = (Duration t = 0)
   \<and> (0 < sint (Duration t) \<and> sint (Duration t) < 3600000000000
        \<and> s = nat (sint (Duration t) div 1000000000) \<longrightarrow>
        HumanDuration t =
          [digit (s div 60 div 10), digit (s div 60 mod 10),
           CHR '':'', digit (s mod 60 div 10), digit (s mod 60 mod 10)])
   \<and> (3600000000000 \<le> sint (Duration t) \<and> sint (Duration t) < 16777216000000000
        \<and> s = nat (sint (Duration t) div 1000000000) \<longrightarrow>
        HumanDuration t =
          decimal (s div 3600)
          @ [CHR '':'', digit (s mod 3600 div 60 div 10), digit (s mod 3600 div 60 mod 10),
             CHR '':'', digit (s mod 60 div 10), digit (s mod 60 mod 10)])
   \<and> (16777216000000000 \<le> sint (Duration t)
        \<and> s = nat (sint (Duration t) div 1000000000) \<longrightarrow>
        (\<exists>s1. (s1 = s \<or> s1 = s + 1)
           \<and> HumanDuration t =
               decimal (s1 div 3600)
               @ [CHR '':'', digit (s1 mod 3600 div 60 div 10), digit (s1 mod 3600 div 60 mod 10),
                  CHR '':'', digit (s1 mod 60 div 10), digit (s1 mod 60 mod 10)]))"
proof -
  let ?d = "sint (Duration t)"
  let ?q = "?d div 1000000000"
  have c2: "HumanDuration t =
          [digit (s div 60 div 10), digit (s div 60 mod 10),
           CHR '':'', digit (s mod 60 div 10), digit (s mod 60 mod 10)]"
    if "0 < ?d" and "?d < 3600000000000" and "s = nat ?q"
  proof -
    from that have q: "0 \<le> ?q" "?q < 3600" by simp_all
    then have "?q < 2 ^ 24" by simp
    from seconds_of_positive(3) [OF that(1) this] q that(3)
    have "toInt (Seconds ?d) = int s" by simp
    from HumanDuration_of_seconds [OF seconds_of_positive(1) [OF that(1)] this] q that(3)
    show ?thesis by simp
  qed
  have c3: "HumanDuration t =
          decimal (s div 3600)
          @ [CHR '':'', digit (s mod 3600 div 60 div 10), digit (s mod 3600 div 60 mod 10),
             CHR '':'', digit (s mod 60 div 10), digit (s mod 60 mod 10)]"
    if "3600000000000 \<le> ?d" and "?d < 16777216000000000" and "s = nat ?q"
  proof -
    from that have pos: "0 < ?d" by simp
    from that have q: "3600 \<le> ?q" "?q < 2 ^ 24" by simp_all
    from seconds_of_positive(3) [OF pos q(2)] q that(3)
    have "toInt (Seconds ?d) = int s" by simp
    from HumanDuration_of_seconds [OF seconds_of_positive(1) [OF pos] this] q that(3)
    show ?thesis by simp
  qed
  have c4: "\<exists>s1. (s1 = s \<or> s1 = s + 1)
           \<and> HumanDuration t =
               decimal (s1 div 3600)
               @ [CHR '':'', digit (s1 mod 3600 div 60 div 10), digit (s1 mod 3600 div 60 mod 10),
                  CHR '':'', digit (s1 mod 60 div 10), digit (s1 mod 60 mod 10)]"
    if "16777216000000000 \<le> ?d" and "s = nat ?q"
  proof -
    from that have pos: "0 < ?d" by simp
    from that have q: "3600 \<le> ?q" by simp
    from q that(2) have "int s = ?q" "int (s + 1) = ?q + 1"
      by simp_all
    with seconds_of_positive(2) [OF pos]
    have "toInt (Seconds ?d) = int s \<or> toInt (Seconds ?d) = int (s + 1)"
      by (simp only:)
    then obtain s1 where s1: "s1 = s \<or> s1 = s + 1" and e: "toInt (Seconds ?d) = int s1"
      by blast
    from s1 q that(2) have "3600 \<le> s1" by auto
    with HumanDuration_of_seconds [OF seconds_of_positive(1) [OF pos] e] s1
    show ?thesis by auto
  qed
  from HumanDuration_live [of t] c2 c3 c4 show ?thesis
    by blast
qed

lemma sint_trackLong: "sint (Duration trackLong) = 16777216999999999"
  by (simp add: trackLong_def)

lemma seconds_trackLong: "toInt (Seconds (sint (Duration trackLong))) = 16777217"
proof -
  have "(0::int) \<le> 16777216999999999" "(16777216999999999::int) < 2 ^ 63"
    by simp_all
  from Seconds_toInt [OF this] show ?thesis
    by (simp add: sint_trackLong)
qed

text \<open>
  C10 as stated fails for long durations: 16777216.999999999 s are 4660 h 20 min 16 s and
  a remainder, and the function renders them as \<^verbatim>\<open>4660:20:17\<close>.
\<close>

theorem HumanDuration_rounds_up_counterexample:
  "sint (Duration trackLong) = 16777216999999999
   \<and> sint (Duration trackLong) div 1000000000 = 16777216
   \<and> 16777216 = 4660 * 3600 + 20 * 60 + (16::int)
   \<and> HumanDuration trackLong = ''4660:20:17''
   \<and> HumanDuration trackLong \<noteq> ''4660:20:16''"
proof -
  have "Duration trackLong \<noteq> 0"
    by (simp add: trackLong_def)
  moreover have "toInt (Seconds (sint (Duration trackLong))) = int 16777217"
    by (simp add: seconds_trackLong)
  ultimately have "HumanDuration trackLong = ''4660:20:17''"
    by (simp add: HumanDuration_of_seconds decimal.simps digit_def)
  then show ?thesis
    by (simp add: sint_trackLong)
qed

theorem HumanDuration_render_witness:
  "HumanDuration trackA = ''00:30''
   \<and> HumanDuration trackB = ''live''
   \<and> HumanDuration trackHour = ''1:02:05''
   \<and> (HumanDuration trackLong = ''4660:20:16'' \<or> HumanDuration trackLong = ''4660:20:17'')"
proof -
  have d: "sint (Duration trackA) = 30000000000" "sint (Duration trackHour) = 3725000000000"
    "Duration trackB = 0"
    by (simp_all add: trackA_def trackB_def trackHour_def)
  have "HumanDuration trackA =
          [digit (30 div 60 div 10), digit (30 div 60 mod 10),
           CHR '':'', digit (30 mod 60 div 10), digit (30 mod 60 mod 10)]"
    using HumanDuration_render [of trackA 30] d by simp
  then have c1: "HumanDuration trackA = ''00:30''"
    by (simp add: digit_def)
  have c2: "HumanDuration trackB = ''live''"
    using HumanDuration_render [of trackB] d by simp
  have "HumanDuration trackHour =
          decimal (3725 div 3600)
          @ [CHR '':'', digit (3725 mod 3600 div 60 div 10), digit (3725 mod 3600 div 60 mod 10),
             CHR '':'', digit (3725 mod 60 div 10), digit (3725 mod 60 mod 10)]"
    using HumanDuration_render [of trackHour 3725] d by simp
  then have c3: "HumanDuration trackHour = ''1:02:05''"
    by (simp add: digit_def decimal.simps)
  have "\<exists>s1. (s1 = 16777216 \<or> s1 = 16777216 + 1)
           \<and> HumanDuration trackLong =
               decimal (s1 div 3600)
               @ [CHR '':'', digit (s1 mod 3600 div 60 div 10), digit (s1 mod 3600 div 60 mod 10),
                  CHR '':'', digit (s1 mod 60 div 10), digit (s1 mod 60 mod 10)]"
    using HumanDuration_render [of trackLong 16777216] sint_trackLong by simp
  then have c4: "HumanDuration trackLong = ''4660:20:16'' \<or> HumanDuration trackLong = ''4660:20:17''"
    by (auto simp add: digit_def decimal.simps)
  from c1 c2 c3 c4 show ?thesis
    by blast
qed

end
